theory Spec2Isabelle
  imports Main "HOL-Library.Signed_Division"
begin

section \<open>The event loop\<close>

text \<open>
  The browser runs one callback at a time. An \<^verbatim>\<open>async\<close> method runs up to its next
  \<^verbatim>\<open>await\<close> of a promise that is still pending, and is resumed by a later event (a timer,
  the end of an animation, the settling of \<^verbatim>\<open>play()\<close>); awaiting a promise that is
  already settled lets no other callback in. The model keeps every suspended invocation
  as a task in the state; one step of a machine is one callback of the event loop, run
  from its start to its next suspension. The effects a callback performs on the page,
  the audio and the slideshow are appended to a trace, oldest first. The chime engine
  and the coordinator share no state and are two machines.
\<close>

section \<open>Chime engine (class ChimesManager)\<close>

subsection \<open>State\<close>

text \<open>The fields of the \<^verbatim>\<open><audio id="audio-bell"></audio>\<close> element that \<^verbatim>\<open>playBell\<close> reads.\<close>

record audio_element =
  has_src :: bool
  has_error :: bool

text \<open>The effects of the engine: the indicator shown (\<^verbatim>\<open>showChimeIndicator(count)\<close>); a
  strike begun (a call of \<^verbatim>\<open>playBell\<close>); \<^verbatim>\<open>audioBell.play()\<close> called;
  \<^verbatim>\<open>audioSynth.playBell()\<close> called; a \<^verbatim>\<open>wait(ms)\<close> begun; the indicator hidden.\<close>

datatype bell_event =
    ShowChimeIndicator int
  | BellStrike
  | AudioPlay
  | SynthBell
  | BellWait nat
  | HideChimeIndicator

text \<open>Where a suspended \<^verbatim>\<open>chime(count)\<close> waits: inside \<^verbatim>\<open>playBell\<close> for \<^verbatim>\<open>play()\<close> to settle,
  inside \<^verbatim>\<open>playBell\<close> for its one-second timer, or in \<^verbatim>\<open>wait(bellDelay)\<close>.\<close>

datatype bell_phase = AwaitPlay | AwaitStrikeTimer | AwaitBellDelay

text \<open>A suspended \<^verbatim>\<open>chime(count)\<close>: its loop variable, its argument, and where it waits.\<close>

record chime_task =
  ct_i :: int
  ct_count :: int
  ct_phase :: bell_phase

text \<open>The fields of the \<^verbatim>\<open>ChimesManager\<close>, whether the global \<^verbatim>\<open>audioSynth\<close> is defined,
  the suspended invocations of \<^verbatim>\<open>chime\<close> and the trace.\<close>

record chimes =
  audioBell :: "audio_element option"
  lastChimeHour :: int
  isChiming :: bool
  bellDelay :: nat
  synthDefined :: bool
  chimeTasks :: "chime_task list"
  chimeTrace :: "bell_event list"

text \<open>The constructor. The element looked up in the page may be missing (\<^verbatim>\<open>null\<close>).\<close>

definition ChimesManager :: "audio_element option \<Rightarrow> bool \<Rightarrow> chimes" where
  "ChimesManager el synth =
     \<lparr>audioBell = el, lastChimeHour = - 1, isChiming = False, bellDelay = 1920,
      synthDefined = synth, chimeTasks = [], chimeTrace = []\<rparr>"

definition emit :: "bell_event \<Rightarrow> chimes \<Rightarrow> chimes" where
  "emit e s = s\<lparr>chimeTrace := chimeTrace s @ [e]\<rparr>"

subsection \<open>Methods\<close>

text \<open>\<^verbatim>\<open>hour24 % 12\<close>: the remainder of JavaScript takes the sign of the dividend.\<close>

definition getChimeCount :: "int \<Rightarrow> int" where
  "getChimeCount hour24 = (let hour12 = hour24 smod 12 in if hour12 = 0 then 12 else hour12)"

definition playSynthBell :: "chimes \<Rightarrow> chimes" where
  "playSynthBell s = (if synthDefined s then emit SynthBell s else s)"

text \<open>The synchronous part of \<^verbatim>\<open>playBell\<close>, and where its promise then waits.\<close>

definition playBell :: "chimes \<Rightarrow> chimes \<times> bell_phase" where
  "playBell s =
     (let s1 = emit BellStrike s in
      case audioBell s1 of
        None \<Rightarrow> (playSynthBell s1, AwaitStrikeTimer)
      | Some a \<Rightarrow>
          if has_src a \<and> \<not> has_error a then (emit AudioPlay s1, AwaitPlay)
          else (playSynthBell s1, AwaitStrikeTimer))"

definition showChimeIndicator :: "int \<Rightarrow> chimes \<Rightarrow> chimes" where
  "showChimeIndicator count s = emit (ShowChimeIndicator count) s"

definition hideChimeIndicator :: "chimes \<Rightarrow> chimes" where
  "hideChimeIndicator s = emit HideChimeIndicator s"

definition suspend :: "int \<Rightarrow> int \<Rightarrow> bell_phase \<Rightarrow> chimes \<Rightarrow> chimes" where
  "suspend i count ph s =
     s\<lparr>chimeTasks := chimeTasks s @ [\<lparr>ct_i = i, ct_count = count, ct_phase = ph\<rparr>]\<rparr>"

text \<open>The head of the \<^verbatim>\<open>for\<close> loop of \<^verbatim>\<open>chime\<close>, entered with \<open>i = 0\<close> and again after each
  \<^verbatim>\<open>i++\<close>: either the next strike starts and the method suspends in it, or the loop is
  left and the method runs to its end.\<close>

definition chime_loop :: "int \<Rightarrow> int \<Rightarrow> chimes \<Rightarrow> chimes" where
  "chime_loop i count s =
     (if i < count then (case playBell s of (s', ph) \<Rightarrow> suspend i count ph s')
      else hideChimeIndicator (s\<lparr>isChiming := False\<rparr>))"

definition chime :: "int \<Rightarrow> chimes \<Rightarrow> chimes" where
  "chime count s =
     (if isChiming s \<or> audioBell s = None then s
      else chime_loop 0 count (showChimeIndicator count (s\<lparr>isChiming := True\<rparr>)))"

definition checkTime :: "int \<Rightarrow> int \<Rightarrow> chimes \<Rightarrow> chimes" where
  "checkTime hours minutes s =
     (if minutes = 0 \<and> hours \<noteq> lastChimeHour s \<and> \<not> isChiming s
      then chime (getChimeCount hours) (s\<lparr>lastChimeHour := hours\<rparr>)
      else s)"

definition testChime :: "int \<Rightarrow> chimes \<Rightarrow> chimes" where
  "testChime count s = chime count s"

subsection \<open>Resumptions and the event loop\<close>

datatype settled = PlayResolved | PlayRejected | TimerFired

text \<open>The continuation of the \<open>j\<close>-th suspended \<^verbatim>\<open>chime\<close>. An event that the task does not
  wait for cannot occur; the model leaves the state as it is.\<close>

definition resume_chime :: "nat \<Rightarrow> settled \<Rightarrow> chimes \<Rightarrow> chimes" where
  "resume_chime j ev s =
     (if j < length (chimeTasks s) then
        (let t = chimeTasks s ! j;
             r = s\<lparr>chimeTasks := take j (chimeTasks s) @ drop (Suc j) (chimeTasks s)\<rparr>
         in case (ct_phase t, ev) of
              (AwaitPlay, PlayResolved) \<Rightarrow> suspend (ct_i t) (ct_count t) AwaitStrikeTimer r
            | (AwaitPlay, PlayRejected) \<Rightarrow>
                suspend (ct_i t) (ct_count t) AwaitStrikeTimer (playSynthBell r)
            | (AwaitStrikeTimer, TimerFired) \<Rightarrow>
                if ct_i t < ct_count t - 1
                then suspend (ct_i t) (ct_count t) AwaitBellDelay (emit (BellWait (bellDelay r)) r)
                else chime_loop (ct_i t + 1) (ct_count t) r
            | (AwaitBellDelay, TimerFired) \<Rightarrow> chime_loop (ct_i t + 1) (ct_count t) r
            | _ \<Rightarrow> s)
      else s)"

text \<open>What the browser does to the audio element between callbacks (a source is set,
  loading fails).\<close>

definition audio_status :: "bool \<Rightarrow> bool \<Rightarrow> chimes \<Rightarrow> chimes" where
  "audio_status src err s =
     (case audioBell s of
        None \<Rightarrow> s
      | Some a \<Rightarrow> s\<lparr>audioBell := Some (a\<lparr>has_src := src, has_error := err\<rparr>)\<rparr>)"

datatype chime_input =
    CheckTime int int
  | TestChime int
  | ResumeChime nat settled
  | AudioStatus bool bool

fun chime_step :: "chimes \<Rightarrow> chime_input \<Rightarrow> chimes" where
  "chime_step s (CheckTime hours minutes) = checkTime hours minutes s"
| "chime_step s (TestChime count) = testChime count s"
| "chime_step s (ResumeChime j ev) = resume_chime j ev s"
| "chime_step s (AudioStatus src err) = audio_status src err s"

definition chime_run :: "chime_input list \<Rightarrow> chimes \<Rightarrow> chimes" where
  "chime_run ins s = foldl chime_step s ins"

section \<open>Transition engine (class WormholeManager) and coordinator (class TimeMachine)\<close>

subsection \<open>Configuration\<close>

record year_config =
  year :: string
  era :: string
  folder :: string
  display :: string

definition years :: "nat \<Rightarrow> year_config option" where
  "years = map_of
     [(1, \<lparr>year = ''2025'', era = ''CE'', folder = ''2025'', display = ''2025 CE''\<rparr>),
      (2, \<lparr>year = ''1969'', era = ''CE'', folder = ''1969'', display = ''1969 CE''\<rparr>),
      (3, \<lparr>year = ''1751'', era = ''CE'', folder = ''1751'', display = ''1751 CE''\<rparr>),
      (4, \<lparr>year = ''423'', era = ''BCE'', folder = ''423bce'', display = ''423 BCE''\<rparr>),
      (5, \<lparr>year = ''2026'', era = ''CE'', folder = ''2026'', display = ''2026 CE''\<rparr>)]"

text \<open>Hour of the day to year key.\<close>

definition schedule :: "nat \<Rightarrow> nat option" where
  "schedule = map_of [(20, 1), (21, 2), (22, 3), (23, 4), (0, 5), (12, 4)]"

subsection \<open>State\<close>

text \<open>What the coordinator and the wormhole do to the page, the audio and the slideshow:
  \<^verbatim>\<open>slideshow.pause()\<close>; the wormhole shown with its label, sound, rotation and particles;
  rotation, particles and loop sound halted; the arrival sound; the flash animation
  started; its \<^verbatim>\<open>onfinish\<close>; the wormhole hidden; \<^verbatim>\<open>currentYearKey\<close> written;
  \<^verbatim>\<open>slideshow.loadYear\<close>; \<^verbatim>\<open>startFactsRotation\<close>.\<close>

datatype travel_event =
    SlideshowPause
  | WormholeShown string
  | EffectsHalted
  | ArrivalSound
  | FlashStarted
  | FlashSettled
  | WormholeHidden
  | CommitPeriod nat
  | LoadYear string
  | FactsRotation string

text \<open>The suspended invocations, each with the year key it goes on with:
  \<^verbatim>\<open>initiateAutomaticTimeTravel\<close> in \<^verbatim>\<open>wait(4000)\<close>; \<^verbatim>\<open>wormholeManager.stop()\<close> in
  \<^verbatim>\<open>arrivalFlash()\<close>, awaited by \<^verbatim>\<open>completeTimeTravel\<close> or \<^verbatim>\<open>initiateAutomaticTimeTravel\<close>;
  \<^verbatim>\<open>goToYear\<close> in \<^verbatim>\<open>wait(200)\<close>.\<close>

datatype travel_task = AutoHold nat | StopFlash nat | FadeWait nat

text \<open>The fields of the \<^verbatim>\<open>TimeMachine\<close> and of the global \<^verbatim>\<open>wormholeManager\<close> it drives
  (\<open>isActive\<close>, \<open>targetYear\<close>).\<close>

record machine =
  currentYearKey :: nat
  pendingYearKey :: "nat option"
  lastScheduledHour :: "nat option"
  isActive :: bool
  targetYear :: "string option"
  travelTasks :: "travel_task list"
  effects :: "travel_event list"

text \<open>The two constructors. \<^verbatim>\<open>pendingYearKey\<close> is not assigned there (\<^verbatim>\<open>undefined\<close>).\<close>

definition TimeMachine :: machine where
  "TimeMachine =
     \<lparr>currentYearKey = 1, pendingYearKey = None, lastScheduledHour = None,
      isActive = False, targetYear = None, travelTasks = [], effects = []\<rparr>"

datatype type_error = TypeError

definition perform :: "travel_event list \<Rightarrow> machine \<Rightarrow> machine" where
  "perform es s = s\<lparr>effects := effects s @ es\<rparr>"

definition await :: "travel_task \<Rightarrow> machine \<Rightarrow> machine" where
  "await t s = s\<lparr>travelTasks := travelTasks s @ [t]\<rparr>"

subsection \<open>WormholeManager\<close>

definition isRunning :: "machine \<Rightarrow> bool" where
  "isRunning s = isActive s"

definition wormhole_start :: "string \<Rightarrow> machine \<Rightarrow> machine" where
  "wormhole_start yearDisplay s =
     (if isActive s then s
      else perform [WormholeShown yearDisplay]
             (s\<lparr>isActive := True, targetYear := Some yearDisplay\<rparr>))"

text \<open>\<^verbatim>\<open>stop()\<close> up to \<^verbatim>\<open>await this.arrivalFlash()\<close>; the flag says whether it suspended there
  (it returns at once when the wormhole is not active).\<close>

definition wormhole_stop :: "machine \<Rightarrow> machine \<times> bool" where
  "wormhole_stop s =
     (if \<not> isActive s then (s, False)
      else (perform [EffectsHalted, ArrivalSound, FlashStarted] s, True))"

text \<open>The \<^verbatim>\<open>onfinish\<close> of the flash resolves the promise, and \<^verbatim>\<open>stop()\<close> runs to its end.\<close>

definition wormhole_stop_resumed :: "machine \<Rightarrow> machine" where
  "wormhole_stop_resumed s =
     perform [WormholeHidden] ((perform [FlashSettled] s)\<lparr>isActive := False\<rparr>)"

subsection \<open>TimeMachine\<close>

text \<open>\<^verbatim>\<open>goToYear\<close> after its \<^verbatim>\<open>wait(200)\<close>. \<^verbatim>\<open>slideshow.loadYear\<close> has no \<^verbatim>\<open>await\<close> of its
  own, so awaiting it does not let another callback in.\<close>

definition goToYear_resumed :: "nat \<Rightarrow> machine \<Rightarrow> machine" where
  "goToYear_resumed yearKey s =
     (case years yearKey of
        None \<Rightarrow> s
      | Some yearConfig \<Rightarrow>
          perform [LoadYear (folder yearConfig), FactsRotation (folder yearConfig)] s)"

definition goToYear :: "nat \<Rightarrow> bool \<Rightarrow> machine \<Rightarrow> machine" where
  "goToYear yearKey animate s =
     (case years yearKey of
        None \<Rightarrow> s
      | Some yearConfig \<Rightarrow>
          (let s1 = perform [CommitPeriod yearKey] (s\<lparr>currentYearKey := yearKey\<rparr>)
           in if animate then await (FadeWait yearKey) s1 else goToYear_resumed yearKey s1))"

text \<open>The common tail of \<^verbatim>\<open>completeTimeTravel\<close> and \<^verbatim>\<open>initiateAutomaticTimeTravel\<close>:
  \<^verbatim>\<open>await wormholeManager.stop(); await this.goToYear(yearKey, true);\<close>\<close>

definition stop_then_goToYear :: "nat \<Rightarrow> machine \<Rightarrow> machine" where
  "stop_then_goToYear yearKey s =
     (case wormhole_stop s of
        (s1, True) \<Rightarrow> await (StopFlash yearKey) s1
      | (s1, False) \<Rightarrow> goToYear yearKey True s1)"

text \<open>Reading \<^verbatim>\<open>destination.display\<close> of a year key that is not configured throws; the
  method is \<^verbatim>\<open>async\<close>, so its promise rejects, before any field is written.\<close>

definition initiateTimeTravel :: "nat \<Rightarrow> machine \<Rightarrow> type_error + machine" where
  "initiateTimeTravel yearKey s =
     (if isRunning s then Inr s
      else case years yearKey of
        None \<Rightarrow> Inl TypeError
      | Some destination \<Rightarrow>
          Inr (wormhole_start (display destination)
                 ((perform [SlideshowPause] s)\<lparr>pendingYearKey := Some yearKey\<rparr>)))"

text \<open>\<^verbatim>\<open>if (!this.pendingYearKey) return;\<close> also returns on the number 0.\<close>

definition completeTimeTravel :: "machine \<Rightarrow> machine" where
  "completeTimeTravel s =
     (case pendingYearKey s of
        None \<Rightarrow> s
      | Some yearKey \<Rightarrow>
          if yearKey = 0 then s
          else stop_then_goToYear yearKey (s\<lparr>pendingYearKey := None\<rparr>))"

definition initiateAutomaticTimeTravel :: "nat \<Rightarrow> machine \<Rightarrow> type_error + machine" where
  "initiateAutomaticTimeTravel yearKey s =
     (case years yearKey of
        None \<Rightarrow> Inl TypeError
      | Some destination \<Rightarrow>
          Inr (await (AutoHold yearKey)
                 (wormhole_start (display destination) (perform [SlideshowPause] s))))"

text \<open>A caller that does not await the promise goes on with the state the method left.\<close>

definition settled_or :: "machine \<Rightarrow> type_error + machine \<Rightarrow> machine" where
  "settled_or s r = (case r of Inl _ \<Rightarrow> s | Inr s' \<Rightarrow> s')"

definition checkScheduledTravel :: "nat \<Rightarrow> machine \<Rightarrow> machine" where
  "checkScheduledTravel currentHour s =
     (if isRunning s then s
      else case schedule currentHour of
        None \<Rightarrow> s\<lparr>lastScheduledHour := None\<rparr>
      | Some scheduledYearKey \<Rightarrow>
          if lastScheduledHour s = Some currentHour then s
          else if currentYearKey s = scheduledYearKey
          then s\<lparr>lastScheduledHour := Some currentHour\<rparr>
          else (let s1 = s\<lparr>lastScheduledHour := Some currentHour\<rparr>
                in settled_or s1 (initiateAutomaticTimeTravel scheduledYearKey s1)))"

text \<open>The \<^verbatim>\<open>keydown\<close> listener, on the keys that concern travel: a digit, the space bar,
  any other key.\<close>

datatype key = Digit nat | Space | OtherKey

fun keydown :: "key \<Rightarrow> machine \<Rightarrow> machine" where
  "keydown (Digit yearKey) s =
     (if 1 \<le> yearKey \<and> yearKey \<le> 5
      then (if years yearKey \<noteq> None \<and> yearKey \<noteq> currentYearKey s
            then settled_or s (initiateTimeTravel yearKey s) else s)
      else s)"
| "keydown Space s = (if isRunning s then completeTimeTravel s else s)"
| "keydown OtherKey s = s"

text \<open>\<^verbatim>\<open>init\<close> from \<^verbatim>\<open>startClock()\<close> on, at the hour of the page load: the clock is
  updated at once, then the starting year is loaded without animation. Nothing of the
  machine runs before (the manifest and the facts are fetched; the key listener and the
  timers are only then installed).\<close>

definition init :: "nat \<Rightarrow> machine" where
  "init currentHour = goToYear 1 False (checkScheduledTravel currentHour TimeMachine)"

subsection \<open>Resumptions and the event loop\<close>

definition resume_travel :: "nat \<Rightarrow> machine \<Rightarrow> machine" where
  "resume_travel j s =
     (if j < length (travelTasks s) then
        (let r = s\<lparr>travelTasks := take j (travelTasks s) @ drop (Suc j) (travelTasks s)\<rparr>
         in case travelTasks s ! j of
              AutoHold yearKey \<Rightarrow> stop_then_goToYear yearKey r
            | StopFlash yearKey \<Rightarrow> goToYear yearKey True (wormhole_stop_resumed r)
            | FadeWait yearKey \<Rightarrow> goToYear_resumed yearKey r)
      else s)"

text \<open>A key press, a tick of the one-second clock (\<^verbatim>\<open>updateClock\<close> passes the hour to
  \<^verbatim>\<open>checkScheduledTravel\<close>), or the event the \<open>j\<close>-th suspended invocation waits for.\<close>

datatype travel_input = KeyDown key | ClockTick nat | ResumeTravel nat

fun travel_step :: "machine \<Rightarrow> travel_input \<Rightarrow> machine" where
  "travel_step s (KeyDown k) = keydown k s"
| "travel_step s (ClockTick currentHour) = checkScheduledTravel currentHour s"
| "travel_step s (ResumeTravel j) = resume_travel j s"

definition travel_run :: "travel_input list \<Rightarrow> machine \<Rightarrow> machine" where
  "travel_run ins s = foldl travel_step s ins"

section \<open>Facts and the ticker (TimeMachine.loadAllFacts, startFactsRotation)\<close>

text \<open>The text of a facts file is a JavaScript string: a list of UTF-16 code units.\<close>

type_synonym js_string = "nat list"

definition js :: "string \<Rightarrow> js_string" where
  "js cs = map of_char cs"

text \<open>What \<^verbatim>\<open>String.prototype.trim\<close> strips: the white space and the line terminators of
  ECMAScript.\<close>

definition is_space :: "nat \<Rightarrow> bool" where
  "is_space c =
     (c \<in> {0x9, 0xA, 0xB, 0xC, 0xD, 0x20, 0xA0, 0x1680, 0x2028, 0x2029, 0x202F, 0x205F,
            0x3000, 0xFEFF}
      \<or> (0x2000 \<le> c \<and> c \<le> 0x200A))"

definition trim :: "js_string \<Rightarrow> js_string" where
  "trim line = rev (dropWhile is_space (rev (dropWhile is_space line)))"

text \<open>\<^verbatim>\<open>text.split('\n')\<close>: the pieces between line feeds; one piece for the empty text.\<close>

fun split_lines :: "js_string \<Rightarrow> js_string list" where
  "split_lines [] = [[]]"
| "split_lines (c # cs) =
     (if c = 0xA then [] # split_lines cs
      else (case split_lines cs of
              [] \<Rightarrow> [[c]]
            | line # lines \<Rightarrow> (c # line) # lines))"

text \<open>\<^verbatim>\<open>fetch\<close> and \<^verbatim>\<open>response.text()\<close>: either one of them rejects, or the body arrives.\<close>

datatype fetch_result = Rejected | Body js_string

definition folders :: "string list" where
  "folders = [''2025'', ''1969'', ''1751'', ''423bce'', ''2026'']"

definition unavailable :: js_string where
  "unavailable = js ''Temporal data unavailable for this era.''"

text \<open>One round of the loop of \<^verbatim>\<open>loadAllFacts\<close>: the \<^verbatim>\<open>try\<close> block and its \<^verbatim>\<open>catch\<close>.\<close>

definition load_facts :: "fetch_result \<Rightarrow> js_string list" where
  "load_facts r =
     (case r of
        Rejected \<Rightarrow> [unavailable]
      | Body text \<Rightarrow> filter (\<lambda>line. length line > 0) (map trim (split_lines text)))"

definition loadAllFacts ::
  "(string \<Rightarrow> fetch_result) \<Rightarrow> (string \<rightharpoonup> js_string list) \<Rightarrow> (string \<rightharpoonup> js_string list)" where
  "loadAllFacts fetch facts =
     foldl (\<lambda>fs f. fs(f \<mapsto> load_facts (fetch f))) facts folders"

text \<open>\<^verbatim>\<open>this.facts[folder] || ['No data available.']\<close>: an array, empty or not, is truthy.\<close>

definition no_data :: js_string where
  "no_data = js ''No data available.''"

definition ticker_facts :: "(string \<rightharpoonup> js_string list) \<Rightarrow> string \<Rightarrow> js_string list" where
  "ticker_facts facts f = (case facts f of None \<Rightarrow> [no_data] | Some fs \<Rightarrow> fs)"

text \<open>\<^verbatim>\<open>shuffleArray\<close>: the loop runs \<open>i\<close> from the last index down to 1 and swaps the
  elements at \<open>i\<close> and at a drawn \<open>j \<le> i\<close>. The draws of \<^verbatim>\<open>Math.random\<close> are given by \<open>rnd\<close>.\<close>

fun shuffle_from :: "(nat \<Rightarrow> nat) \<Rightarrow> nat \<Rightarrow> 'a list \<Rightarrow> 'a list" where
  "shuffle_from rnd 0 xs = xs"
| "shuffle_from rnd (Suc i) xs =
     (let j = rnd (Suc i) mod (Suc (Suc i))
      in shuffle_from rnd i (xs[Suc i := xs ! j, j := xs ! Suc i]))"

definition shuffleArray :: "(nat \<Rightarrow> nat) \<Rightarrow> 'a list \<Rightarrow> 'a list" where
  "shuffleArray rnd xs = shuffle_from rnd (length xs - 1) xs"

text \<open>\<^verbatim>\<open>Array.prototype.join\<close>.\<close>

fun join :: "js_string \<Rightarrow> js_string list \<Rightarrow> js_string" where
  "join sep [] = []"
| "join sep [x] = x"
| "join sep (x # y # ys) = x @ sep @ join sep (y # ys)"

definition separator :: js_string where
  "separator = [0x20, 0x25C6, 0x20]"

text \<open>The text of each of the two spans of the ticker.\<close>

definition startFactsRotation ::
  "(nat \<Rightarrow> nat) \<Rightarrow> (string \<rightharpoonup> js_string list) \<Rightarrow> string \<Rightarrow> js_string" where
  "startFactsRotation rnd facts f =
     join separator (shuffleArray rnd (ticker_facts facts f)) @ separator"

section \<open>Vocabulary of the statements\<close>

subsection \<open>Chime sequences in the trace\<close>

text \<open>The trace without the marks of which sound source a strike used.\<close>

definition audible :: "bell_event \<Rightarrow> bool" where
  "audible e = (e \<noteq> AudioPlay \<and> e \<noteq> SynthBell)"

definition bells :: "bell_event list \<Rightarrow> bell_event list" where
  "bells tr = filter audible tr"

text \<open>\<open>n\<close> strikes with a wait of \<open>d\<close> milliseconds between two of them, and none after
  the last.\<close>

fun strikes :: "nat \<Rightarrow> nat \<Rightarrow> bell_event list" where
  "strikes d 0 = []"
| "strikes d (Suc 0) = [BellStrike]"
| "strikes d (Suc (Suc n)) = BellStrike # BellWait d # strikes d (Suc n)"

text \<open>A whole chime sequence of a given count, from the indicator shown to the indicator
  hidden.\<close>

definition sequence_shape :: "nat \<Rightarrow> int \<Rightarrow> bell_event list" where
  "sequence_shape d count =
     ShowChimeIndicator count # strikes d (nat count) @ [HideChimeIndicator]"

text \<open>What a suspended sequence has done so far.\<close>

definition task_prefix :: "nat \<Rightarrow> chime_task \<Rightarrow> bell_event list" where
  "task_prefix d t =
     ShowChimeIndicator (ct_count t) # strikes d (Suc (nat (ct_i t)))
       @ (if ct_phase t = AwaitBellDelay then [BellWait d] else [])"

definition unfinished :: "chimes \<Rightarrow> bell_event list" where
  "unfinished s = concat (map (task_prefix (bellDelay s)) (chimeTasks s))"

definition sequences_then :: "nat \<Rightarrow> bell_event list \<Rightarrow> bell_event list \<Rightarrow> bool" where
  "sequences_then d tr rest = (\<exists>ns. tr = concat (map (sequence_shape d) ns) @ rest)"

definition task_ok :: "chime_task \<Rightarrow> bool" where
  "task_ok t = (0 \<le> ct_i t \<and> ct_i t < ct_count t
                \<and> (ct_phase t = AwaitBellDelay \<longrightarrow> ct_i t < ct_count t - 1))"

definition chime_inv :: "chimes \<Rightarrow> bool" where
  "chime_inv s =
     (length (chimeTasks s) \<le> 1 \<and> (isChiming s \<longleftrightarrow> chimeTasks s \<noteq> [])
      \<and> (\<forall>t \<in> set (chimeTasks s). task_ok t)
      \<and> sequences_then (bellDelay s) (bells (chimeTrace s)) (unfinished s))"

subsection \<open>Running a chime sequence to its end\<close>

definition strikes_played :: "chimes \<Rightarrow> nat" where
  "strikes_played s = length (filter (\<lambda>e. e = BellStrike) (chimeTrace s))"

definition waits_made :: "chimes \<Rightarrow> nat" where
  "waits_made s = length (filter (\<lambda>e. e = BellWait (bellDelay s)) (chimeTrace s))"

text \<open>The event the first suspended sequence waits for occurs; when it waits for
  \<^verbatim>\<open>play()\<close>, \<open>ok\<close> says whether the promise resolves.\<close>

definition settle_for :: "bool \<Rightarrow> bell_phase \<Rightarrow> settled" where
  "settle_for ok ph =
     (case ph of AwaitPlay \<Rightarrow> (if ok then PlayResolved else PlayRejected) | _ \<Rightarrow> TimerFired)"

definition deliver :: "chimes \<Rightarrow> bool \<Rightarrow> chimes" where
  "deliver s ok =
     (case chimeTasks s of
        [] \<Rightarrow> s
      | t # _ \<Rightarrow> chime_step s (ResumeChime 0 (settle_for ok (ct_phase t))))"

definition drain :: "bool list \<Rightarrow> chimes \<Rightarrow> chimes" where
  "drain oks s = foldl deliver s oks"

fun phase_rank :: "bell_phase \<Rightarrow> nat" where
  "phase_rank AwaitPlay = 0"
| "phase_rank AwaitStrikeTimer = 1"
| "phase_rank AwaitBellDelay = 2"

definition strikes_due :: "chimes \<Rightarrow> nat" where
  "strikes_due s = sum_list (map (\<lambda>t. nat (ct_count t - ct_i t) - 1) (chimeTasks s))"

definition waits_due :: "chimes \<Rightarrow> nat" where
  "waits_due s =
     sum_list (map (\<lambda>t. nat (ct_count t - ct_i t) - 1
                          - (if ct_phase t = AwaitBellDelay then 1 else 0)) (chimeTasks s))"

definition steps_left :: "chimes \<Rightarrow> nat" where
  "steps_left s =
     sum_list (map (\<lambda>t. 3 * nat (ct_count t - ct_i t) - phase_rank (ct_phase t))
       (chimeTasks s))"

text \<open>A page with a playable bell file, and a history used in examples.\<close>

definition bell_file :: "audio_element option" where
  "bell_file = Some \<lparr>has_src = True, has_error = False\<rparr>"

definition busy_hour :: "chime_input list" where
  "busy_hour =
     [TestChime 2, CheckTime 9 0, ResumeChime 0 PlayResolved, TestChime 3,
      ResumeChime 0 TimerFired, ResumeChime 0 TimerFired, CheckTime 9 0,
      ResumeChime 0 PlayRejected, ResumeChime 0 TimerFired, CheckTime 10 0]"

subsection \<open>Transitions in flight\<close>

fun holds_wormhole :: "travel_task \<Rightarrow> bool" where
  "holds_wormhole (AutoHold k) = True"
| "holds_wormhole (StopFlash k) = True"
| "holds_wormhole (FadeWait k) = False"

fun fading :: "travel_task \<Rightarrow> bool" where
  "fading (FadeWait k) = True"
| "fading t = False"

fun task_key :: "travel_task \<Rightarrow> nat" where
  "task_key (AutoHold k) = k"
| "task_key (StopFlash k) = k"
| "task_key (FadeWait k) = k"

text \<open>The transitions that keep the wormhole open: a manual one waiting for the space bar
  (its destination is pending), an automatic one in its hold, or either in its flash.\<close>

definition episodes :: "machine \<Rightarrow> nat" where
  "episodes s =
     (case pendingYearKey s of None \<Rightarrow> 0 | Some k \<Rightarrow> 1)
       + length (filter holds_wormhole (travelTasks s))"

text \<open>Reading the effects in order: \<open>f\<close> counts the flashes that have settled and have not
  yet been followed by a commit, \<open>c\<close> the commits not yet followed by their reload. A
  commit with no settled flash before it, or a reload with no commit before it, fails.\<close>

fun order_scan :: "(nat \<times> nat) option \<Rightarrow> travel_event \<Rightarrow> (nat \<times> nat) option" where
  "order_scan None e = None"
| "order_scan (Some (f, c)) FlashSettled = Some (Suc f, c)"
| "order_scan (Some (f, c)) (CommitPeriod k) = (if 0 < f then Some (f - 1, Suc c) else None)"
| "order_scan (Some (f, c)) (LoadYear d) = (if 0 < c then Some (f, c - 1) else None)"
| "order_scan (Some (f, c)) e = Some (f, c)"

definition flash_before_commit :: "travel_event list \<Rightarrow> bool" where
  "flash_before_commit es = (foldl order_scan (Some (0, 0)) es \<noteq> None)"

text \<open>The invariant of the event loop; \<open>n\<close> is the number of effects of \<^verbatim>\<open>init\<close>, whose
  load of the starting year is no transition.\<close>

definition travel_inv :: "nat \<Rightarrow> machine \<Rightarrow> bool" where
  "travel_inv n s =
     (episodes s = (if isActive s then 1 else 0)
      \<and> (\<forall>k. pendingYearKey s = Some k \<longrightarrow> years k \<noteq> None)
      \<and> (\<forall>t \<in> set (travelTasks s). years (task_key t) \<noteq> None)
      \<and> n \<le> length (effects s)
      \<and> foldl order_scan (Some (0, 0)) (drop n (effects s))
          = Some (0, length (filter fading (travelTasks s))))"

text \<open>Examples: the page loaded at 19 h; then the key 3 pressed and the space bar
  awaited; or the travel scheduled for 21 h made and completed, and the user gone back
  to 2025 by hand within the hour.\<close>

definition loaded :: machine where
  "loaded = init 19"

definition waiting_for_space :: machine where
  "waiting_for_space = travel_run [KeyDown (Digit 3)] (init 19)"

definition overridden :: machine where
  "overridden =
     travel_run [ClockTick 21, ResumeTravel 0, ResumeTravel 0, ResumeTravel 0,
                 KeyDown (Digit 1), KeyDown Space, ResumeTravel 0, ResumeTravel 0] (init 19)"

section \<open>Properties of the chime engine\<close>

text \<open>
  C6. For every hour of the day \<open>h\<close> from 0 to 23 the number of strikes is 12 when
  \<open>h mod 12 = 0\<close> (hours 0 and 12) and \<open>h mod 12\<close> otherwise, and it lies between 1 and 12.
\<close>

theorem getChimeCount_12_hour:
  assumes "0 \<le> h" and "h \<le> 23"
  shows "getChimeCount h = (if h mod 12 = 0 then 12 else h mod 12)
         \<and> 1 \<le> getChimeCount h \<and> getChimeCount h \<le> 12"
proof -
  have eq: "h smod 12 = h mod 12"
    using assms by (simp add: signed_modulo_int_def sgn_if)
  have lo: "0 \<le> h mod 12" and hi: "h mod 12 < 12"
    by simp_all
  have val: "getChimeCount h = (if h mod 12 = 0 then 12 else h mod 12)"
    by (simp add: getChimeCount_def eq Let_def)
  have rng: "1 \<le> getChimeCount h \<and> getChimeCount h \<le> 12"
  proof (cases "h mod 12 = 0")
    case True
    then show ?thesis by (simp add: val)
  next
    case False
    have "1 \<le> h mod 12" using False lo by linarith
    moreover have "h mod 12 \<le> 12" using hi by linarith
    ultimately show ?thesis using False by (simp add: val)
  qed
  show ?thesis
    using val rng by blast
qed

theorem getChimeCount_12_hour_witness:
  "(0::int) \<le> 12 \<and> (12::int) \<le> 23 \<and> getChimeCount 12 = 12
   \<and> (0::int) \<le> 21 \<and> (21::int) \<le> 23 \<and> getChimeCount 21 = 9"
  using getChimeCount_12_hour [of 12] getChimeCount_12_hour [of 21] by simp

text \<open>
  C10. When the bell audio element is missing from the page, \<^verbatim>\<open>chime\<close> does nothing at
  all: the state is the one before the call, so no strike is played, the synthesized bell
  is not used, and neither \<open>isChiming\<close> nor the indicator is touched.
\<close>

theorem chime_without_audio_element:
  assumes "audioBell s = None"
  shows "chime count s = s"
  using assms by (simp add: chime_def)

theorem chime_without_audio_element_witness:
  "audioBell (ChimesManager None True) = None
   \<and> chime 3 (ChimesManager None True) = ChimesManager None True"
  using chime_without_audio_element [of "ChimesManager None True" 3]
  by (simp add: ChimesManager_def)

subsection \<open>The trace is a succession of whole sequences\<close>

lemma strikes_snoc: "strikes d (Suc (Suc n)) = strikes d (Suc n) @ [BellWait d, BellStrike]"
  by (induction d n rule: strikes.induct) simp_all

lemma sequences_then_snoc:
  "sequences_then d tr rest \<Longrightarrow> sequences_then d (tr @ [e]) (rest @ [e])"
  by (auto simp: sequences_then_def)

lemma sequences_then_complete:
  assumes "sequences_then d tr (sequence_shape d n)"
  shows "sequences_then d tr []"
proof -
  from assms obtain ns where "tr = concat (map (sequence_shape d) ns) @ sequence_shape d n"
    by (auto simp: sequences_then_def)
  then have "tr = concat (map (sequence_shape d) (ns @ [n])) @ []" by simp
  then show ?thesis unfolding sequences_then_def by blast
qed

lemma bells_simps [simp]:
  "bells [] = []"
  "bells (e # es) = (if audible e then e # bells es else bells es)"
  "bells (xs @ ys) = bells xs @ bells ys"
  by (simp_all add: bells_def)

lemma chime_inv_init: "chime_inv (ChimesManager el synth)"
  by (simp add: chime_inv_def ChimesManager_def unfinished_def sequences_then_def bells_def
      exI [of _ "[]"])

lemma playSynthBell_fields [simp]:
  "chimeTasks (playSynthBell s) = chimeTasks s"
  "isChiming (playSynthBell s) = isChiming s"
  "bellDelay (playSynthBell s) = bellDelay s"
  "lastChimeHour (playSynthBell s) = lastChimeHour s"
  "audioBell (playSynthBell s) = audioBell s"
  "bells (chimeTrace (playSynthBell s)) = bells (chimeTrace s)"
  by (simp_all add: playSynthBell_def emit_def bells_def audible_def)

lemma playBell_fields [simp]:
  "chimeTasks (fst (playBell s)) = chimeTasks s"
  "isChiming (fst (playBell s)) = isChiming s"
  "bellDelay (fst (playBell s)) = bellDelay s"
  "lastChimeHour (fst (playBell s)) = lastChimeHour s"
  "audioBell (fst (playBell s)) = audioBell s"
  "bells (chimeTrace (fst (playBell s))) = bells (chimeTrace s) @ [BellStrike]"
  "snd (playBell s) \<noteq> AwaitBellDelay"
  by (simp_all add: playBell_def Let_def emit_def bells_def audible_def playSynthBell_def
      split: option.splits)


lemma chime_loop_strike:
  "i < count \<Longrightarrow> chime_loop i count s = suspend i count (snd (playBell s)) (fst (playBell s))"
  by (simp add: chime_loop_def split: prod.splits)

lemma chime_loop_done:
  "\<not> i < count \<Longrightarrow> chime_loop i count s = hideChimeIndicator (s\<lparr>isChiming := False\<rparr>)"
  by (simp add: chime_loop_def)

lemma chime_inv_start:
  assumes inv: "chime_inv s" and idle: "\<not> isChiming s"
  shows "chime_inv (chime_loop 0 count (showChimeIndicator count (s\<lparr>isChiming := True\<rparr>)))"
proof -
  from inv idle have nil: "chimeTasks s = []"
    and tr: "sequences_then (bellDelay s) (bells (chimeTrace s)) []"
    by (auto simp: chime_inv_def unfinished_def)
  let ?s1 = "showChimeIndicator count (s\<lparr>isChiming := True\<rparr>)"
  have tr1: "sequences_then (bellDelay s) (bells (chimeTrace ?s1)) [ShowChimeIndicator count]"
    using sequences_then_snoc [OF tr, of "ShowChimeIndicator count"]
    by (simp add: showChimeIndicator_def emit_def audible_def)
  show ?thesis
  proof (cases "0 < count")
    case True
    have "sequences_then (bellDelay s) (bells (chimeTrace ?s1) @ [BellStrike])
            [ShowChimeIndicator count, BellStrike]"
      using sequences_then_snoc [OF tr1, of BellStrike] by simp
    then show ?thesis using True nil
      by (simp add: chime_loop_strike suspend_def chime_inv_def unfinished_def task_prefix_def
          task_ok_def showChimeIndicator_def emit_def)
  next
    case False
    have "sequences_then (bellDelay s) (bells (chimeTrace ?s1) @ [HideChimeIndicator])
            (sequence_shape (bellDelay s) count)"
      using sequences_then_snoc [OF tr1, of HideChimeIndicator] False
      by (simp add: sequence_shape_def)
    then have "sequences_then (bellDelay s) (bells (chimeTrace ?s1) @ [HideChimeIndicator]) []"
      by (rule sequences_then_complete)
    then show ?thesis using False nil
      by (simp add: chime_loop_done hideChimeIndicator_def chime_inv_def unfinished_def
          showChimeIndicator_def emit_def audible_def)
  qed
qed

lemma chime_inv_chime: "chime_inv s \<Longrightarrow> chime_inv (chime count s)"
  by (simp add: chime_def chime_inv_start)

lemma chime_inv_checkTime: "chime_inv s \<Longrightarrow> chime_inv (checkTime h m s)"
proof -
  assume inv: "chime_inv s"
  have "chime_inv (s\<lparr>lastChimeHour := h\<rparr>)"
    using inv by (simp add: chime_inv_def unfinished_def)
  then show ?thesis using inv by (simp add: checkTime_def chime_inv_chime)
qed

lemma chime_inv_audio_status: "chime_inv s \<Longrightarrow> chime_inv (audio_status src err s)"
  by (simp add: audio_status_def chime_inv_def unfinished_def split: option.splits)


lemma nat_succ: "0 \<le> i \<Longrightarrow> nat (i + 1) = Suc (nat i)"
  by simp

lemma chime_inv_resume:
  assumes inv: "chime_inv s"
  shows "chime_inv (resume_chime j ev s)"
proof (cases "j < length (chimeTasks s)")
  case False
  then show ?thesis using inv by (simp add: resume_chime_def)
next
  case True
  with inv obtain t where ts: "chimeTasks s = [t]" and j0: "j = 0"
    by (cases "chimeTasks s") (auto simp: chime_inv_def)
  from inv ts have ok: "task_ok t" and busy: "isChiming s"
    and tr: "sequences_then (bellDelay s) (bells (chimeTrace s)) (task_prefix (bellDelay s) t)"
    by (auto simp: chime_inv_def unfinished_def)
  let ?d = "bellDelay s"
  let ?r = "s\<lparr>chimeTasks := []\<rparr>"
  have i0: "0 \<le> ct_i t" and ic: "ct_i t < ct_count t"
    using ok by (simp_all add: task_ok_def)
  consider
      (resolved) "ct_phase t = AwaitPlay" "ev = PlayResolved"
    | (rejected) "ct_phase t = AwaitPlay" "ev = PlayRejected"
    | (wait) "ct_phase t = AwaitStrikeTimer" "ev = TimerFired" "ct_i t < ct_count t - 1"
    | (last) "ct_phase t = AwaitStrikeTimer" "ev = TimerFired" "\<not> ct_i t < ct_count t - 1"
    | (delay) "ct_phase t = AwaitBellDelay" "ev = TimerFired"
    | (other) "resume_chime j ev s = s"
    using ts j0 by (cases "ct_phase t"; cases ev) (auto simp: resume_chime_def)
  then show ?thesis
  proof cases
    case resolved
    then show ?thesis using inv ts j0 ok
      by (simp add: resume_chime_def Let_def suspend_def chime_inv_def unfinished_def task_prefix_def
          task_ok_def)
  next
    case rejected
    then show ?thesis using inv ts j0 ok
      by (simp add: resume_chime_def Let_def suspend_def chime_inv_def unfinished_def task_prefix_def
          task_ok_def Let_def)
  next
    case wait
    have "sequences_then ?d (bells (chimeTrace s) @ [BellWait ?d])
            (task_prefix ?d t @ [BellWait ?d])"
      by (rule sequences_then_snoc [OF tr])
    then show ?thesis using wait busy ts j0 i0 ic
      by (simp add: resume_chime_def Let_def suspend_def chime_inv_def unfinished_def task_prefix_def
          task_ok_def emit_def audible_def)
  next
    case last
    with ic have cnt: "ct_count t = ct_i t + 1" by simp
    have shape: "task_prefix ?d t @ [HideChimeIndicator] = sequence_shape ?d (ct_count t)"
      using last i0 by (simp add: task_prefix_def sequence_shape_def cnt nat_succ)
    have "sequences_then ?d (bells (chimeTrace s) @ [HideChimeIndicator]) []"
      using sequences_then_snoc [OF tr, of HideChimeIndicator]
      unfolding shape by (rule sequences_then_complete)
    then show ?thesis using last ts j0
      by (simp add: resume_chime_def Let_def chime_loop_done hideChimeIndicator_def chime_inv_def
          unfinished_def emit_def audible_def)
  next
    case delay
    with ok have nxt: "ct_i t + 1 < ct_count t" by (simp add: task_ok_def)
    have pre: "task_prefix ?d t @ [BellStrike]
               = ShowChimeIndicator (ct_count t) # strikes ?d (Suc (Suc (nat (ct_i t))))"
      using delay by (simp add: task_prefix_def strikes_snoc del: strikes.simps)
    have "sequences_then ?d (bells (chimeTrace s) @ [BellStrike])
            (ShowChimeIndicator (ct_count t) # strikes ?d (Suc (Suc (nat (ct_i t)))))"
      using sequences_then_snoc [OF tr, of BellStrike] unfolding pre .
    then show ?thesis using delay busy ts j0 i0 nxt
      by (simp add: resume_chime_def Let_def chime_loop_strike suspend_def chime_inv_def
          unfinished_def task_prefix_def task_ok_def nat_succ)
  next
    case other
    then show ?thesis using inv by simp
  qed
qed

lemma chime_inv_step: "chime_inv s \<Longrightarrow> chime_inv (chime_step s x)"
  by (cases x)
    (simp_all add: chime_inv_checkTime chime_inv_chime testChime_def chime_inv_resume
      chime_inv_audio_status)

lemma chime_inv_foldl: "chime_inv s \<Longrightarrow> chime_inv (foldl chime_step s ins)"
  by (induction ins arbitrary: s) (simp_all add: chime_inv_step)

lemma chime_inv_run: "chime_inv (chime_run ins (ChimesManager el synth))"
  by (simp add: chime_run_def chime_inv_foldl chime_inv_init)


lemma bellDelay_chime_loop [simp]: "bellDelay (chime_loop i count s) = bellDelay s"
  by (cases "i < count")
    (simp_all add: chime_loop_strike chime_loop_done suspend_def hideChimeIndicator_def emit_def)

lemma bellDelay_chime [simp]: "bellDelay (chime count s) = bellDelay s"
  by (simp add: chime_def showChimeIndicator_def emit_def)

lemma bellDelay_resume [simp]: "bellDelay (resume_chime j ev s) = bellDelay s"
  by (cases "ct_phase (chimeTasks s ! j)"; cases ev)
    (simp_all add: resume_chime_def Let_def suspend_def emit_def)

lemma bellDelay_step [simp]: "bellDelay (chime_step s x) = bellDelay s"
  by (cases x) (simp_all add: checkTime_def testChime_def audio_status_def split: option.splits)

lemma bellDelay_foldl: "bellDelay (foldl chime_step s ins) = bellDelay s"
  by (induction ins arbitrary: s) simp_all

lemma bellDelay_run: "bellDelay (chime_run ins (ChimesManager el synth)) = 1920"
  by (simp add: chime_run_def bellDelay_foldl) (simp add: ChimesManager_def)

lemma strikes_count: "length (filter (\<lambda>e. e = BellStrike) (strikes d n)) = n"
  by (induction d n rule: strikes.induct) simp_all

lemma waits_count: "length (filter (\<lambda>e. e = BellWait d) (strikes d n)) = n - 1"
  by (induction d n rule: strikes.induct) simp_all

lemma strikes_last: "strikes d (Suc n) = butlast (strikes d (Suc n)) @ [BellStrike]"
  by (induction d n rule: strikes.induct) simp_all

text \<open>
  C7. Whatever the order in which hourly checks, test triggers, audio events and timers
  arrive, at most one chime sequence is suspended at any time, \<open>isChiming\<close> holds exactly
  while one is, and the trace is a succession of whole sequences followed by what the
  running one has done so far: sequences never overlap. A whole sequence of count \<open>n\<close> is
  the indicator shown, \<open>n\<close> strikes with a wait of \<open>bellDelay\<close> = 1920 ms between two of
  them and none after the last, and the indicator hidden: \<open>n\<close> strikes and \<open>n - 1\<close> waits
  (no strike and no wait when \<open>n \<le> 0\<close>).
\<close>

theorem chime_sequences_exclusive:
  "length (chimeTasks (chime_run ins (ChimesManager el synth))) \<le> 1
   \<and> (isChiming (chime_run ins (ChimesManager el synth))
        \<longleftrightarrow> chimeTasks (chime_run ins (ChimesManager el synth)) \<noteq> [])
   \<and> (\<exists>ns. bells (chimeTrace (chime_run ins (ChimesManager el synth)))
             = concat (map (sequence_shape 1920) ns)
               @ unfinished (chime_run ins (ChimesManager el synth)))
   \<and> length (filter (\<lambda>e. e = BellStrike) (sequence_shape d n)) = nat n
   \<and> length (filter (\<lambda>e. e = BellWait d) (sequence_shape d n)) = nat n - 1
   \<and> sequence_shape d (int (Suc k))
       = ShowChimeIndicator (int (Suc k)) # butlast (strikes d (Suc k))
         @ [BellStrike, HideChimeIndicator]"
proof -
  let ?s = "chime_run ins (ChimesManager el synth)"
  have inv: "chime_inv ?s" by (rule chime_inv_run)
  have d: "bellDelay ?s = 1920" by (rule bellDelay_run)
  have a: "length (chimeTasks ?s) \<le> 1" and b: "isChiming ?s \<longleftrightarrow> chimeTasks ?s \<noteq> []"
    using inv by (simp_all add: chime_inv_def)
  have c: "\<exists>ns. bells (chimeTrace ?s) = concat (map (sequence_shape 1920) ns) @ unfinished ?s"
    using inv d by (simp add: chime_inv_def sequences_then_def)
  have e: "length (filter (\<lambda>e. e = BellStrike) (sequence_shape d n)) = nat n"
    by (simp add: sequence_shape_def strikes_count)
  have f: "length (filter (\<lambda>e. e = BellWait d) (sequence_shape d n)) = nat n - 1"
    by (simp add: sequence_shape_def waits_count)
  have g: "sequence_shape d (int (Suc k))
       = ShowChimeIndicator (int (Suc k)) # butlast (strikes d (Suc k))
         @ [BellStrike, HideChimeIndicator]"
  proof -
    have "strikes d (Suc k) @ [HideChimeIndicator]
          = (butlast (strikes d (Suc k)) @ [BellStrike]) @ [HideChimeIndicator]"
      by (rule arg_cong [where f = "\<lambda>x. x @ [HideChimeIndicator]", OF strikes_last])
    then show ?thesis
      unfolding sequence_shape_def nat_int by (simp del: strikes.simps)
  qed
  show ?thesis using a b c e f g by blast
qed

theorem chime_sequences_exclusive_witness:
  "bells (chimeTrace (chime_run busy_hour (ChimesManager bell_file True)))
     = sequence_shape 1920 2 @ [ShowChimeIndicator 10, BellStrike]
   \<and> length (chimeTasks (chime_run busy_hour (ChimesManager bell_file True))) = 1
   \<and> isChiming (chime_run busy_hour (ChimesManager bell_file True))
   \<and> length (filter (\<lambda>e. e = BellStrike) (sequence_shape 1920 2)) = 2
   \<and> length (filter (\<lambda>e. e = BellWait 1920) (sequence_shape 1920 2)) = 1
   \<and> sequence_shape 1920 2
       = [ShowChimeIndicator 2, BellStrike, BellWait 1920, BellStrike, HideChimeIndicator]"
proof -
  have tr: "bells (chimeTrace (chime_run busy_hour (ChimesManager bell_file True)))
     = sequence_shape 1920 2 @ [ShowChimeIndicator 10, BellStrike]"
    by code_simp
  have ts: "length (chimeTasks (chime_run busy_hour (ChimesManager bell_file True))) = 1"
    by code_simp
  have sh: "sequence_shape 1920 2
       = [ShowChimeIndicator 2, BellStrike, BellWait 1920, BellStrike, HideChimeIndicator]"
    by code_simp
  note w = chime_sequences_exclusive [of busy_hour bell_file True 1920 2 1]
  from w ts have busy: "isChiming (chime_run busy_hour (ChimesManager bell_file True))"
    by auto
  from w have cnt: "length (filter (\<lambda>e. e = BellStrike) (sequence_shape 1920 2)) = 2"
    "length (filter (\<lambda>e. e = BellWait 1920) (sequence_shape 1920 2)) = 1"
    by simp_all
  show ?thesis using tr ts sh busy cnt by blast
qed

subsection \<open>A sequence run to its end\<close>

lemma lastChimeHour_chime [simp]: "lastChimeHour (chime count s) = lastChimeHour s"
  by (cases "0 < count")
    (simp_all add: chime_def chime_loop_strike chime_loop_done showChimeIndicator_def
      hideChimeIndicator_def emit_def suspend_def)

lemma lastChimeHour_resume [simp]: "lastChimeHour (resume_chime j ev s) = lastChimeHour s"
  by (cases "ct_phase (chimeTasks s ! j)"; cases ev;
      cases "ct_i (chimeTasks s ! j) + 1 < ct_count (chimeTasks s ! j)")
    (simp_all add: resume_chime_def Let_def suspend_def emit_def chime_loop_strike
      chime_loop_done hideChimeIndicator_def)

lemma playBell_counts [simp]:
  "length (filter (\<lambda>e. e = BellStrike) (chimeTrace (fst (playBell s))))
     = Suc (length (filter (\<lambda>e. e = BellStrike) (chimeTrace s)))"
  "length (filter (\<lambda>e. e = BellWait d) (chimeTrace (fst (playBell s))))
     = length (filter (\<lambda>e. e = BellWait d) (chimeTrace s))"
  by (simp_all add: playBell_def Let_def emit_def playSynthBell_def split: option.splits)

lemma playSynthBell_counts [simp]:
  "length (filter (\<lambda>e. e = BellStrike) (chimeTrace (playSynthBell s)))
     = length (filter (\<lambda>e. e = BellStrike) (chimeTrace s))"
  "length (filter (\<lambda>e. e = BellWait d) (chimeTrace (playSynthBell s)))
     = length (filter (\<lambda>e. e = BellWait d) (chimeTrace s))"
  by (simp_all add: emit_def playSynthBell_def)

lemma deliver_progress:
  assumes inv: "chime_inv s"
  shows "strikes_played (deliver s ok) + strikes_due (deliver s ok)
           = strikes_played s + strikes_due s
         \<and> waits_made (deliver s ok) + waits_due (deliver s ok) = waits_made s + waits_due s
         \<and> steps_left (deliver s ok) \<le> steps_left s - 1"
proof (cases "chimeTasks s")
  case Nil
  then show ?thesis by (simp add: deliver_def steps_left_def)
next
  case (Cons t ts)
  with inv have ts: "chimeTasks s = [t]" and ok: "task_ok t"
    by (auto simp: chime_inv_def)
  have i0: "0 \<le> ct_i t" and ic: "ct_i t < ct_count t"
    using ok by (simp_all add: task_ok_def)
  consider
      (play) "ct_phase t = AwaitPlay"
    | (wait) "ct_phase t = AwaitStrikeTimer" "ct_i t < ct_count t - 1"
    | (last) "ct_phase t = AwaitStrikeTimer" "\<not> ct_i t < ct_count t - 1"
    | (delay) "ct_phase t = AwaitBellDelay"
    by (cases "ct_phase t") auto
  then show ?thesis
  proof cases
    case play
    then show ?thesis using ts ic
      by (simp add: deliver_def settle_for_def resume_chime_def Let_def suspend_def
          strikes_played_def strikes_due_def waits_made_def waits_due_def steps_left_def)
  next
    case wait
    then have n2: "2 \<le> nat (ct_count t - ct_i t)" by simp
    show ?thesis using wait ts n2
      by (simp add: deliver_def settle_for_def resume_chime_def Let_def suspend_def emit_def
          strikes_played_def strikes_due_def waits_made_def waits_due_def steps_left_def;
          arith)
  next
    case last
    then show ?thesis using ts ic
      by (simp add: deliver_def settle_for_def resume_chime_def Let_def chime_loop_done
          hideChimeIndicator_def emit_def
          strikes_played_def strikes_due_def waits_made_def waits_due_def steps_left_def)
  next
    case delay
    with ok have nxt: "ct_i t + 1 < ct_count t" by (simp add: task_ok_def)
    have n1: "nat (ct_count t - (ct_i t + 1)) = nat (ct_count t - ct_i t) - 1"
      by simp
    have n2: "2 \<le> nat (ct_count t - ct_i t)" using nxt by simp
    have r: "phase_rank (snd (playBell (s\<lparr>chimeTasks := []\<rparr>))) \<le> 2"
      by (cases "snd (playBell (s\<lparr>chimeTasks := []\<rparr>))") simp_all
    show ?thesis using delay ts nxt n2 r
      by (simp add: deliver_def settle_for_def resume_chime_def Let_def chime_loop_strike
          suspend_def n1
          strikes_played_def strikes_due_def waits_made_def waits_due_def steps_left_def;
          arith)
  qed
qed


lemma steps_left_zero:
  assumes inv: "chime_inv s" and z: "steps_left s = 0"
  shows "chimeTasks s = []"
proof (cases "chimeTasks s")
  case Nil
  then show ?thesis .
next
  case (Cons t ts)
  with inv have ts: "chimeTasks s = [t]" and ok: "task_ok t"
    by (auto simp: chime_inv_def)
  have "ct_i t < ct_count t" using ok by (simp add: task_ok_def)
  then have "1 \<le> nat (ct_count t - ct_i t)" by linarith
  moreover have "phase_rank (ct_phase t) \<le> 2" by (cases "ct_phase t") simp_all
  ultimately have "0 < steps_left s" using ts by (simp add: steps_left_def)
  with z show ?thesis by simp
qed

lemma chime_inv_deliver: "chime_inv s \<Longrightarrow> chime_inv (deliver s ok)"
  by (simp add: deliver_def chime_inv_resume split: list.splits)

lemma lastChimeHour_deliver [simp]: "lastChimeHour (deliver s ok) = lastChimeHour s"
  by (simp add: deliver_def split: list.splits)

lemma drain_progress:
  assumes "chime_inv s"
  shows "chime_inv (drain oks s)
         \<and> strikes_played (drain oks s) + strikes_due (drain oks s)
             = strikes_played s + strikes_due s
         \<and> waits_made (drain oks s) + waits_due (drain oks s) = waits_made s + waits_due s
         \<and> steps_left (drain oks s) \<le> steps_left s - length oks
         \<and> lastChimeHour (drain oks s) = lastChimeHour s"
  using assms
proof (induction oks arbitrary: s)
  case Nil
  then show ?case by (simp add: drain_def)
next
  case (Cons ok oks)
  have inv': "chime_inv (deliver s ok)" using Cons.prems by (rule chime_inv_deliver)
  note step = deliver_progress [OF Cons.prems, of ok]
  note rest = Cons.IH [OF inv']
  have unfold: "drain (ok # oks) s = drain oks (deliver s ok)" by (simp add: drain_def)
  have "steps_left (drain oks (deliver s ok)) \<le> steps_left s - length (ok # oks)"
    using step rest by simp arith
  then show ?case unfolding unfold using step rest by simp
qed

lemma chime_start_counts:
  assumes inv: "chime_inv s" and idle: "\<not> isChiming s" and el: "audioBell s \<noteq> None"
  shows "strikes_played (chime count s) + strikes_due (chime count s)
           = strikes_played s + nat count
         \<and> waits_made (chime count s) + waits_due (chime count s)
             = waits_made s + (nat count - 1)
         \<and> steps_left (chime count s) \<le> 3 * nat count"
proof -
  from inv idle have nil: "chimeTasks s = []" by (simp add: chime_inv_def)
  show ?thesis
  proof (cases "0 < count")
    case True
    then show ?thesis using nil idle el
      by (simp add: chime_def chime_loop_strike suspend_def showChimeIndicator_def emit_def
          strikes_played_def strikes_due_def waits_made_def waits_due_def steps_left_def)
  next
    case False
    then show ?thesis using nil idle el
      by (simp add: chime_def chime_loop_done hideChimeIndicator_def showChimeIndicator_def
          emit_def
          strikes_played_def strikes_due_def waits_made_def waits_due_def steps_left_def)
  qed
qed

text \<open>
  C9 (as the code has it). From any state the engine can reach in which no sequence is
  chiming and the bell audio element is present, the test trigger with count \<open>N\<close>,
  followed by the events its sequence waits for (at least three per strike are offered;
  each \<^verbatim>\<open>play()\<close> may resolve or reject), plays exactly \<open>N\<close> strikes (none when \<open>N \<le> 0\<close>)
  with \<open>N - 1\<close> waits, ends with \<open>isChiming\<close> false, and leaves \<open>lastChimeHour\<close> as it was,
  at the trigger and at the end.
\<close>

theorem test_chime_plays_count_strikes:
  assumes reach: "s = chime_run pre (ChimesManager el synth)"
    and idle: "\<not> isChiming s"
    and present: "audioBell s \<noteq> None"
    and enough: "3 * nat N \<le> length oks"
  shows "strikes_played (drain oks (testChime N s)) = strikes_played s + nat N
       \<and> waits_made (drain oks (testChime N s)) = waits_made s + (nat N - 1)
       \<and> \<not> isChiming (drain oks (testChime N s))
       \<and> chimeTasks (drain oks (testChime N s)) = []
       \<and> lastChimeHour (testChime N s) = lastChimeHour s
       \<and> lastChimeHour (drain oks (testChime N s)) = lastChimeHour s"
proof -
  let ?s1 = "chime N s"
  let ?s2 = "drain oks ?s1"
  have inv: "chime_inv s" unfolding reach by (rule chime_inv_run)
  have inv1: "chime_inv ?s1" using inv by (rule chime_inv_chime)
  note start = chime_start_counts [OF inv idle present, of N]
  note run = drain_progress [OF inv1, of oks]
  have "steps_left ?s2 \<le> 3 * nat N - length oks" using start run by linarith
  then have "steps_left ?s2 = 0" using enough by simp
  with run have fin: "chimeTasks ?s2 = []" by (simp add: steps_left_zero)
  then have due: "strikes_due ?s2 = 0" "waits_due ?s2 = 0"
    by (simp_all add: strikes_due_def waits_due_def)
  have quiet: "\<not> isChiming ?s2" using run fin by (simp add: chime_inv_def)
  have a: "strikes_played ?s2 = strikes_played s + nat N" using start run due by simp
  have b: "waits_made ?s2 = waits_made s + (nat N - 1)" using start run due by simp
  have c: "lastChimeHour ?s2 = lastChimeHour s" using run by simp
  show ?thesis unfolding testChime_def using a b c quiet fin by simp
qed

theorem test_chime_plays_count_strikes_witness:
  "\<not> isChiming (ChimesManager bell_file True)
   \<and> audioBell (ChimesManager bell_file True) \<noteq> None
   \<and> strikes_played
        (drain [True, False, True, True, True, True, True, True, True]
           (testChime 3 (ChimesManager bell_file True))) = 3
   \<and> waits_made
        (drain [True, False, True, True, True, True, True, True, True]
           (testChime 3 (ChimesManager bell_file True))) = 2
   \<and> lastChimeHour
        (drain [True, False, True, True, True, True, True, True, True]
           (testChime 3 (ChimesManager bell_file True))) = - 1"
proof -
  have r: "ChimesManager bell_file True = chime_run [] (ChimesManager bell_file True)"
    by (simp add: chime_run_def)
  have i: "\<not> isChiming (ChimesManager bell_file True)"
    and p: "audioBell (ChimesManager bell_file True) \<noteq> None"
    and z: "strikes_played (ChimesManager bell_file True) = 0"
      "waits_made (ChimesManager bell_file True) = 0"
      "lastChimeHour (ChimesManager bell_file True) = - 1"
    by (simp_all add: ChimesManager_def bell_file_def strikes_played_def waits_made_def)
  have n: "3 * nat 3 \<le> length [True, False, True, True, True, True, True, True, True]"
    by simp
  note w = test_chime_plays_count_strikes [OF r i p n]
  show ?thesis using w i p z by simp
qed

text \<open>
  C9 as stated fails when the page has no bell audio element: no sequence is chiming,
  the test trigger with count 3 leaves the state as it is, and no strike is played.
\<close>

theorem test_chime_without_audio_element:
  "\<not> isChiming (ChimesManager None True)
   \<and> testChime 3 (ChimesManager None True) = ChimesManager None True
   \<and> strikes_played
        (drain [True, True, True, True, True, True, True, True, True]
           (testChime 3 (ChimesManager None True))) = 0"
  by (simp add: testChime_def chime_def ChimesManager_def drain_def deliver_def
      strikes_played_def)

section \<open>Properties of the coordinator\<close>

subsection \<open>An invariant of the event loop\<close>

lemma schedule_valid: "schedule h = Some k \<Longrightarrow> years k \<noteq> None"
  by (auto simp: schedule_def years_def split: if_splits)

lemma digit_valid: "1 \<le> k \<Longrightarrow> k \<le> 5 \<Longrightarrow> years k \<noteq> None"
proof -
  assume "1 \<le> k" "k \<le> 5"
  then have "k = 1 \<or> k = 2 \<or> k = 3 \<or> k = 4 \<or> k = 5" by arith
  then show ?thesis by (auto simp: years_def)
qed

lemma filter_remove_nth:
  assumes "j < length xs"
  shows "length (filter P (take j xs @ drop (Suc j) xs))
           = length (filter P xs) - (if P (xs ! j) then 1 else 0)"
proof -
  have "xs = take j xs @ xs ! j # drop (Suc j) xs"
    using assms by (rule id_take_nth_drop)
  then have "length (filter P xs)
             = length (filter P (take j xs @ xs ! j # drop (Suc j) xs))"
    by simp
  then show ?thesis by simp
qed

lemma filter_has_nth:
  assumes "j < length xs" and "P (xs ! j)"
  shows "0 < length (filter P xs)"
proof -
  have "xs ! j \<in> set (filter P xs)" using assms by simp
  then have "filter P xs \<noteq> []" by (metis empty_iff empty_set)
  then show ?thesis by simp
qed

lemma set_remove_nth: "set (take j xs @ drop (Suc j) xs) \<subseteq> set xs"
  by (auto dest: in_set_takeD in_set_dropD)

lemma travel_inv_constructed: "travel_inv 0 TimeMachine"
  by (simp add: travel_inv_def TimeMachine_def episodes_def)

lemma travel_inv_keydown:
  assumes inv: "travel_inv n s"
  shows "travel_inv n (keydown k s)"
proof (cases k)
  case (Digit d)
  show ?thesis
  proof (cases "1 \<le> d \<and> d \<le> 5 \<and> years d \<noteq> None \<and> d \<noteq> currentYearKey s \<and> \<not> isActive s")
    case True
    then obtain cfg where cfg: "years d = Some cfg" by auto
    from inv True have idle: "pendingYearKey s = None"
      "filter holds_wormhole (travelTasks s) = []"
      by (auto simp: travel_inv_def episodes_def split: option.splits)
    show ?thesis using inv True cfg idle
      by (simp add: Digit settled_or_def initiateTimeTravel_def isRunning_def
          wormhole_start_def perform_def travel_inv_def episodes_def)
  next
    case False
    then have "keydown k s = s"
      by (auto simp: Digit settled_or_def initiateTimeTravel_def isRunning_def)
    then show ?thesis using inv by simp
  qed
next
  case Space
  show ?thesis
  proof (cases "isActive s \<and> (\<exists>y. pendingYearKey s = Some y \<and> y \<noteq> 0)")
    case True
    then obtain y where y: "pendingYearKey s = Some y" "y \<noteq> 0" and act: "isActive s" by auto
    from inv y act have none: "filter holds_wormhole (travelTasks s) = []"
      by (simp add: travel_inv_def episodes_def)
    show ?thesis using inv y act none
      by (simp add: Space isRunning_def completeTimeTravel_def stop_then_goToYear_def
          wormhole_stop_def await_def perform_def travel_inv_def episodes_def)
  next
    case False
    then have "keydown k s = s"
      by (auto simp: Space isRunning_def completeTimeTravel_def split: option.splits)
    then show ?thesis using inv by simp
  qed
next
  case OtherKey
  then show ?thesis using inv by simp
qed


lemma travel_inv_tick:
  assumes inv: "travel_inv n s"
  shows "travel_inv n (checkScheduledTravel h s)"
proof (cases "isActive s")
  case True
  then show ?thesis using inv by (simp add: checkScheduledTravel_def isRunning_def)
next
  case False
  from inv False have idle: "pendingYearKey s = None"
    "filter holds_wormhole (travelTasks s) = []"
    by (auto simp: travel_inv_def episodes_def split: option.splits)
  show ?thesis
  proof (cases "schedule h")
    case None
    then show ?thesis using inv False
      by (simp add: checkScheduledTravel_def isRunning_def travel_inv_def episodes_def)
  next
    case (Some k)
    then obtain cfg where cfg: "years k = Some cfg" using schedule_valid by blast
    show ?thesis using inv False Some cfg idle
      by (simp add: checkScheduledTravel_def isRunning_def Let_def settled_or_def
          initiateAutomaticTimeTravel_def wormhole_start_def await_def perform_def
          travel_inv_def episodes_def)
  qed
qed

lemma travel_inv_resume:
  assumes inv: "travel_inv n s"
  shows "travel_inv n (resume_travel j s)"
proof (cases "j < length (travelTasks s)")
  case False
  then show ?thesis using inv by (simp add: resume_travel_def)
next
  case True
  let ?ts = "take j (travelTasks s) @ drop (Suc j) (travelTasks s)"
  let ?r = "s\<lparr>travelTasks := ?ts\<rparr>"
  let ?t = "travelTasks s ! j"
  have mem: "?t \<in> set (travelTasks s)" using True by simp
  with inv have valid: "years (task_key ?t) \<noteq> None" by (simp add: travel_inv_def)
  have rest_valid: "\<forall>t \<in> set ?ts. years (task_key t) \<noteq> None"
    using inv set_remove_nth [of j "travelTasks s"] by (auto simp: travel_inv_def)
  have len: "n \<le> length (effects s)" using inv by (simp add: travel_inv_def)
  have scan: "foldl order_scan (Some (0, 0)) (drop n (effects s))
               = Some (0, length (filter fading (travelTasks s)))"
    using inv by (simp add: travel_inv_def)
  note holds = filter_remove_nth [OF True, of holds_wormhole]
  note fades = filter_remove_nth [OF True, of fading]
  show ?thesis
  proof (cases ?t)
    case (AutoHold k)
    then have pos: "0 < length (filter holds_wormhole (travelTasks s))"
      using filter_has_nth [OF True, of holds_wormhole] by simp
    with inv have act: "isActive s" and pend: "pendingYearKey s = None"
      and one: "length (filter holds_wormhole (travelTasks s)) = 1"
      by (auto simp: travel_inv_def episodes_def split: option.splits if_splits)
    show ?thesis using AutoHold True act pend one holds fades rest_valid valid len scan
      by (simp add: resume_travel_def Let_def stop_then_goToYear_def wormhole_stop_def
          await_def perform_def travel_inv_def episodes_def)
  next
    case (StopFlash k)
    then have pos: "0 < length (filter holds_wormhole (travelTasks s))"
      using filter_has_nth [OF True, of holds_wormhole] by simp
    with inv have act: "isActive s" and pend: "pendingYearKey s = None"
      and one: "length (filter holds_wormhole (travelTasks s)) = 1"
      by (auto simp: travel_inv_def episodes_def split: option.splits if_splits)
    from valid StopFlash obtain cfg where cfg: "years k = Some cfg" by auto
    show ?thesis using StopFlash True act pend one holds fades rest_valid cfg len scan
      by (simp add: resume_travel_def Let_def wormhole_stop_resumed_def goToYear_def
          await_def perform_def travel_inv_def episodes_def)
  next
    case (FadeWait k)
    then have pos: "0 < length (filter fading (travelTasks s))"
      using filter_has_nth [OF True, of fading] by simp
    from valid FadeWait obtain cfg where cfg: "years k = Some cfg" by auto
    show ?thesis using FadeWait True inv pos holds fades rest_valid cfg len scan
      by (simp add: resume_travel_def Let_def goToYear_resumed_def
          perform_def travel_inv_def episodes_def)
  qed
qed

lemma travel_inv_step: "travel_inv n s \<Longrightarrow> travel_inv n (travel_step s x)"
  by (cases x) (simp_all add: travel_inv_keydown travel_inv_tick travel_inv_resume)

lemma travel_inv_foldl: "travel_inv n s \<Longrightarrow> travel_inv n (foldl travel_step s ins)"
  by (induction ins arbitrary: s) (simp_all add: travel_inv_step)

lemma travel_inv_init: "travel_inv (length (effects (init h))) (init h)"
proof -
  have "travel_inv 0 (checkScheduledTravel h TimeMachine)"
    using travel_inv_constructed by (rule travel_inv_tick)
  moreover have "filter fading (travelTasks (checkScheduledTravel h TimeMachine)) = []"
    by (simp add: checkScheduledTravel_def isRunning_def Let_def settled_or_def
        initiateAutomaticTimeTravel_def wormhole_start_def await_def perform_def
        TimeMachine_def split: option.splits)
  ultimately show ?thesis
    by (simp add: init_def goToYear_def goToYear_resumed_def years_def perform_def
        travel_inv_def episodes_def)
qed

lemma travel_inv_run:
  "travel_inv (length (effects (init h))) (travel_run ins (init h))"
  by (simp add: travel_run_def travel_inv_foldl travel_inv_init)


lemma years_zero: "years 0 = None"
  by (simp add: years_def)

lemma pending_only_while_active:
  assumes "travel_inv n s" and "pendingYearKey s = Some k"
  shows "isActive s" and "years k \<noteq> None" and "k \<noteq> 0"
    and "filter holds_wormhole (travelTasks s) = []"
proof -
  show act: "isActive s"
    using assms by (auto simp: travel_inv_def episodes_def split: if_splits)
  show v: "years k \<noteq> None" using assms by (simp add: travel_inv_def)
  show "k \<noteq> 0"
  proof
    assume "k = 0"
    with v years_zero show False by simp
  qed
  show "filter holds_wormhole (travelTasks s) = []"
    using assms act by (simp add: travel_inv_def episodes_def)
qed

lemma complete_accepted:
  assumes "isActive s" and "pendingYearKey s = Some k" and "k \<noteq> 0"
  shows "keydown Space s
         = await (StopFlash k)
             (perform [EffectsHalted, ArrivalSound, FlashStarted] (s\<lparr>pendingYearKey := None\<rparr>))"
  using assms
  by (simp add: isRunning_def completeTimeTravel_def stop_then_goToYear_def wormhole_stop_def
      perform_def)

lemma complete_ignored:
  assumes "\<not> isActive s \<or> pendingYearKey s = None \<or> pendingYearKey s = Some 0"
  shows "keydown Space s = s"
  using assms by (auto simp: isRunning_def completeTimeTravel_def split: option.splits)

lemma select_accepted:
  assumes "1 \<le> P" and "P \<le> 5" and "\<not> isActive s" and "P \<noteq> currentYearKey s"
    and "years P = Some cfg"
  shows "keydown (Digit P) s
         = (perform [SlideshowPause, WormholeShown (display cfg)] s)
             \<lparr>pendingYearKey := Some P, isActive := True, targetYear := Some (display cfg)\<rparr>"
  using assms
  by (simp add: settled_or_def initiateTimeTravel_def isRunning_def wormhole_start_def
      perform_def)

lemma select_ignored:
  assumes "isActive s \<or> P = currentYearKey s"
  shows "keydown (Digit P) s = s"
  using assms by (auto simp: settled_or_def initiateTimeTravel_def isRunning_def)

lemma flash_resumed:
  assumes "years k = Some cfg"
  shows "resume_travel (length ts) (s\<lparr>travelTasks := ts @ [StopFlash k]\<rparr>)
         = (perform [FlashSettled, WormholeHidden, CommitPeriod k] s)
             \<lparr>isActive := False, currentYearKey := k, travelTasks := ts @ [FadeWait k]\<rparr>"
  using assms
  by (simp add: resume_travel_def Let_def wormhole_stop_resumed_def goToYear_def await_def
      perform_def)

lemma fade_resumed:
  assumes "years k = Some cfg"
  shows "resume_travel (length ts) (s\<lparr>travelTasks := ts @ [FadeWait k]\<rparr>)
         = (perform [LoadYear (folder cfg), FactsRotation (folder cfg)] s)\<lparr>travelTasks := ts\<rparr>"
  using assms
  by (simp add: resume_travel_def Let_def goToYear_resumed_def perform_def)

lemma pending_tick [simp]: "pendingYearKey (checkScheduledTravel h s) = pendingYearKey s"
  by (simp add: checkScheduledTravel_def isRunning_def Let_def settled_or_def
      initiateAutomaticTimeTravel_def wormhole_start_def await_def perform_def
      split: option.splits)

lemma pending_resume [simp]: "pendingYearKey (resume_travel j s) = pendingYearKey s"
  by (simp add: resume_travel_def Let_def stop_then_goToYear_def wormhole_stop_def
      wormhole_stop_resumed_def goToYear_def goToYear_resumed_def await_def perform_def
      split: travel_task.splits option.splits)


text \<open>
  C1 (as the code has it). In every state the machine can reach, a pending destination is
  there only while the wormhole is active. A manual selection that starts a transition
  stores its destination as pending; the space bar clears it, and the destination goes to
  the suspended stop, whose resumption commits it as the current year and ends the
  activity. The automatic path and the resumptions never write \<open>pendingYearKey\<close>: an
  automatic transition carries its destination in the suspended call.
\<close>

theorem pending_destination_lifecycle:
  assumes reach: "s = travel_run ins (init h0)"
  shows "(pendingYearKey s \<noteq> None \<longrightarrow> isActive s)
       \<and> (1 \<le> P \<and> P \<le> 5 \<and> P \<noteq> currentYearKey s \<and> \<not> isActive s \<longrightarrow>
            pendingYearKey (keydown (Digit P) s) = Some P \<and> isActive (keydown (Digit P) s))
       \<and> (pendingYearKey s = Some k \<longrightarrow>
            pendingYearKey (keydown Space s) = None
            \<and> isActive (keydown Space s)
            \<and> travelTasks (keydown Space s) = travelTasks s @ [StopFlash k]
            \<and> currentYearKey (resume_travel (length (travelTasks s)) (keydown Space s)) = k
            \<and> \<not> isActive (resume_travel (length (travelTasks s)) (keydown Space s)))
       \<and> pendingYearKey (checkScheduledTravel h s) = pendingYearKey s
       \<and> pendingYearKey (resume_travel j s) = pendingYearKey s"
proof -
  have inv: "travel_inv (length (effects (init h0))) s" unfolding reach by (rule travel_inv_run)
  have a: "pendingYearKey s \<noteq> None \<longrightarrow> isActive s"
    using pending_only_while_active(1) [OF inv] by auto
  have b: "1 \<le> P \<and> P \<le> 5 \<and> P \<noteq> currentYearKey s \<and> \<not> isActive s \<longrightarrow>
            pendingYearKey (keydown (Digit P) s) = Some P \<and> isActive (keydown (Digit P) s)"
  proof
    assume h: "1 \<le> P \<and> P \<le> 5 \<and> P \<noteq> currentYearKey s \<and> \<not> isActive s"
    then obtain cfg where cfg: "years P = Some cfg" using digit_valid [of P] by auto
    have "keydown (Digit P) s
          = (perform [SlideshowPause, WormholeShown (display cfg)] s)
              \<lparr>pendingYearKey := Some P, isActive := True, targetYear := Some (display cfg)\<rparr>"
      using h cfg by (intro select_accepted) simp_all
    then show "pendingYearKey (keydown (Digit P) s) = Some P \<and> isActive (keydown (Digit P) s)"
      by (simp add: perform_def)
  qed
  have c: "pendingYearKey s = Some k \<longrightarrow>
            pendingYearKey (keydown Space s) = None
            \<and> isActive (keydown Space s)
            \<and> travelTasks (keydown Space s) = travelTasks s @ [StopFlash k]
            \<and> currentYearKey (resume_travel (length (travelTasks s)) (keydown Space s)) = k
            \<and> \<not> isActive (resume_travel (length (travelTasks s)) (keydown Space s))"
  proof
    assume p: "pendingYearKey s = Some k"
    note facts = pending_only_while_active [OF inv p]
    from facts(2) obtain cfg where cfg: "years k = Some cfg" by auto
    let ?m = "perform [EffectsHalted, ArrivalSound, FlashStarted] (s\<lparr>pendingYearKey := None\<rparr>)"
    have sp: "keydown Space s = ?m\<lparr>travelTasks := travelTasks s @ [StopFlash k]\<rparr>"
      using complete_accepted [OF facts(1) p facts(3)] by (simp add: await_def perform_def)
    have rs: "resume_travel (length (travelTasks s)) (keydown Space s)
              = (perform [FlashSettled, WormholeHidden, CommitPeriod k] ?m)
                  \<lparr>isActive := False, currentYearKey := k,
                   travelTasks := travelTasks s @ [FadeWait k]\<rparr>"
      unfolding sp by (rule flash_resumed [OF cfg])
    show "pendingYearKey (keydown Space s) = None
            \<and> isActive (keydown Space s)
            \<and> travelTasks (keydown Space s) = travelTasks s @ [StopFlash k]
            \<and> currentYearKey (resume_travel (length (travelTasks s)) (keydown Space s)) = k
            \<and> \<not> isActive (resume_travel (length (travelTasks s)) (keydown Space s))"
      unfolding rs unfolding sp using facts(1) by (simp add: perform_def)
  qed
  show ?thesis using a b c by simp
qed

theorem pending_destination_lifecycle_witness:
  "pendingYearKey waiting_for_space = Some 3
   \<and> isActive waiting_for_space
   \<and> pendingYearKey (keydown Space waiting_for_space) = None
   \<and> currentYearKey (resume_travel 0 (keydown Space waiting_for_space)) = 3
   \<and> pendingYearKey (keydown (Digit 3) loaded) = Some 3"
proof -
  have p: "pendingYearKey waiting_for_space = Some 3" by code_simp
  have n: "length (travelTasks waiting_for_space) = 0" by code_simp
  have q: "(1::nat) \<le> 3 \<and> (3::nat) \<le> 5 \<and> 3 \<noteq> currentYearKey loaded
           \<and> \<not> isActive loaded"
    by code_simp
  have r: "waiting_for_space = travel_run [KeyDown (Digit 3)] (init 19)"
    by (simp add: waiting_for_space_def)
  have e: "loaded = travel_run [] (init 19)" by (simp add: travel_run_def loaded_def)
  note w = pending_destination_lifecycle [OF r, where P = 3 and k = 3 and h = 0 and j = 0]
  note i = pending_destination_lifecycle [OF e, where P = 3 and k = 0 and h = 0 and j = 0]
  from w p have c1: "isActive waiting_for_space" by simp
  from w p n have c2: "pendingYearKey (keydown Space waiting_for_space) = None"
    and c3: "currentYearKey (resume_travel 0 (keydown Space waiting_for_space)) = 3"
    by (simp_all del: keydown.simps)
  from i q have c4: "pendingYearKey (keydown (Digit 3) loaded) = Some 3"
    by (simp del: keydown.simps)
  show ?thesis using p c1 c2 c3 c4 by blast
qed

text \<open>
  C1 as stated fails for automatic transitions: the tick of 21 h starts one, the wormhole
  is active, the transition is held, stopped and committed to 1969, and no pending
  destination was ever set.
\<close>

theorem automatic_travel_without_pending:
  "isActive (travel_run [ClockTick 21] (init 19))
   \<and> pendingYearKey (travel_run [ClockTick 21] (init 19)) = None
   \<and> pendingYearKey (travel_run [ClockTick 21, ResumeTravel 0] (init 19)) = None
   \<and> currentYearKey (travel_run [ClockTick 21, ResumeTravel 0, ResumeTravel 0] (init 19)) = 2"
  by code_simp


lemma travel_run_append: "travel_run (xs @ ys) s = travel_run ys (travel_run xs s)"
  by (simp add: travel_run_def)

text \<open>
  C2. From any reachable state with a pending destination \<open>k\<close>: the space bar halts the
  effects, plays the arrival sound and starts the flash, and commits nothing; the end of
  the flash comes first in the resumption, then the wormhole is hidden, then
  \<open>currentYearKey\<close> becomes \<open>k\<close>; the media of \<open>k\<close> are loaded only in the resumption after
  that. And however the history goes on, every commit in the effects follows a settled
  flash of its own, and every reload a commit of its own.
\<close>

theorem flash_settles_before_commit:
  assumes reach: "s = travel_run ins (init h0)" and pend: "pendingYearKey s = Some k"
  shows "effects (keydown Space s) = effects s @ [EffectsHalted, ArrivalSound, FlashStarted]
       \<and> currentYearKey (keydown Space s) = currentYearKey s
       \<and> effects (resume_travel (length (travelTasks s)) (keydown Space s))
           = effects s @ [EffectsHalted, ArrivalSound, FlashStarted,
                          FlashSettled, WormholeHidden, CommitPeriod k]
       \<and> currentYearKey (resume_travel (length (travelTasks s)) (keydown Space s)) = k
       \<and> (\<exists>cfg. years k = Some cfg
            \<and> effects (resume_travel (length (travelTasks s))
                         (resume_travel (length (travelTasks s)) (keydown Space s)))
                = effects s @ [EffectsHalted, ArrivalSound, FlashStarted,
                               FlashSettled, WormholeHidden, CommitPeriod k,
                               LoadYear (folder cfg), FactsRotation (folder cfg)])
       \<and> flash_before_commit
           (drop (length (effects (init h0))) (effects (travel_run later s)))"
proof -
  have inv: "travel_inv (length (effects (init h0))) s" unfolding reach by (rule travel_inv_run)
  note facts = pending_only_while_active [OF inv pend]
  from facts(2) obtain cfg where cfg: "years k = Some cfg" by auto
  let ?n = "length (travelTasks s)"
  let ?m = "perform [EffectsHalted, ArrivalSound, FlashStarted] (s\<lparr>pendingYearKey := None\<rparr>)"
  let ?c = "(perform [FlashSettled, WormholeHidden, CommitPeriod k] ?m)
              \<lparr>isActive := False, currentYearKey := k\<rparr>"
  have sp: "keydown Space s = ?m\<lparr>travelTasks := travelTasks s @ [StopFlash k]\<rparr>"
    using complete_accepted [OF facts(1) pend facts(3)] by (simp add: await_def perform_def)
  have rs: "resume_travel ?n (keydown Space s) = ?c\<lparr>travelTasks := travelTasks s @ [FadeWait k]\<rparr>"
    unfolding sp using flash_resumed [OF cfg, of "travelTasks s" ?m] by simp
  have rf: "resume_travel ?n (resume_travel ?n (keydown Space s))
            = (perform [LoadYear (folder cfg), FactsRotation (folder cfg)] ?c)
                \<lparr>travelTasks := travelTasks s\<rparr>"
    unfolding rs by (rule fade_resumed [OF cfg])
  have a: "effects (keydown Space s) = effects s @ [EffectsHalted, ArrivalSound, FlashStarted]"
    and b: "currentYearKey (keydown Space s) = currentYearKey s"
    unfolding sp by (simp_all add: perform_def)
  have c: "effects (resume_travel ?n (keydown Space s))
           = effects s @ [EffectsHalted, ArrivalSound, FlashStarted,
                          FlashSettled, WormholeHidden, CommitPeriod k]"
    and d: "currentYearKey (resume_travel ?n (keydown Space s)) = k"
    unfolding rs by (simp_all add: perform_def)
  have e: "effects (resume_travel ?n (resume_travel ?n (keydown Space s)))
                = effects s @ [EffectsHalted, ArrivalSound, FlashStarted,
                               FlashSettled, WormholeHidden, CommitPeriod k,
                               LoadYear (folder cfg), FactsRotation (folder cfg)]"
    unfolding rf by (simp add: perform_def)
  have "travel_inv (length (effects (init h0))) (travel_run later s)"
    unfolding reach travel_run_append [symmetric] by (rule travel_inv_run)
  then have f: "flash_before_commit
                  (drop (length (effects (init h0))) (effects (travel_run later s)))"
    by (simp add: travel_inv_def flash_before_commit_def)
  show ?thesis using a b c d e f cfg by simp
qed

theorem flash_settles_before_commit_witness:
  "pendingYearKey waiting_for_space = Some 3
   \<and> effects (init 19) = [CommitPeriod 1, LoadYear ''2025'', FactsRotation ''2025'']
   \<and> effects (travel_run [KeyDown Space, ResumeTravel 0, ResumeTravel 0] waiting_for_space)
       = [CommitPeriod 1, LoadYear ''2025'', FactsRotation ''2025'',
          SlideshowPause, WormholeShown ''1751 CE'', EffectsHalted, ArrivalSound, FlashStarted,
          FlashSettled, WormholeHidden, CommitPeriod 3, LoadYear ''1751'', FactsRotation ''1751'']
   \<and> flash_before_commit
        (drop 3 (effects
           (travel_run [KeyDown Space, ResumeTravel 0, ResumeTravel 0] waiting_for_space)))"
proof -
  have p: "pendingYearKey waiting_for_space = Some 3" by code_simp
  have r: "waiting_for_space = travel_run [KeyDown (Digit 3)] (init 19)"
    by (simp add: waiting_for_space_def)
  have u: "effects (init 19) = [CommitPeriod 1, LoadYear ''2025'', FactsRotation ''2025'']"
    by code_simp
  have v: "effects (travel_run [KeyDown Space, ResumeTravel 0, ResumeTravel 0] waiting_for_space)
       = [CommitPeriod 1, LoadYear ''2025'', FactsRotation ''2025'',
          SlideshowPause, WormholeShown ''1751 CE'', EffectsHalted, ArrivalSound, FlashStarted,
          FlashSettled, WormholeHidden, CommitPeriod 3, LoadYear ''1751'', FactsRotation ''1751'']"
    by code_simp
  note w = flash_settles_before_commit
    [OF r p, where later = "[KeyDown Space, ResumeTravel 0, ResumeTravel 0]"]
  from w have o: "flash_before_commit
        (drop (length (effects (init 19))) (effects
           (travel_run [KeyDown Space, ResumeTravel 0, ResumeTravel 0] waiting_for_space)))"
    by blast
  have l: "length (effects (init 19)) = 3" unfolding u by simp
  show ?thesis using p u v o unfolding l by blast
qed


text \<open>
  C3. For a period key \<open>P\<close> from 1 to 5 and any state: when the wormhole is not active and
  \<open>P\<close> is not the current year, the selection starts a transition (slideshow paused,
  \<open>P\<close> pending, wormhole active with the label of \<open>P\<close>); when it is active, or \<open>P\<close> is the
  current year, the state is unchanged. The space bar is accepted exactly when the
  wormhole is active and a pending destination exists (0 counts as none, as in
  JavaScript); otherwise the state is unchanged.
\<close>

theorem manual_trigger_contract:
  assumes "1 \<le> P" and "P \<le> 5"
  shows "(\<not> isActive s \<and> P \<noteq> currentYearKey s \<longrightarrow>
            (\<exists>cfg. years P = Some cfg
               \<and> keydown (Digit P) s
                   = (perform [SlideshowPause, WormholeShown (display cfg)] s)
                       \<lparr>pendingYearKey := Some P, isActive := True,
                        targetYear := Some (display cfg)\<rparr>)
            \<and> keydown (Digit P) s \<noteq> s)
       \<and> (isActive s \<or> P = currentYearKey s \<longrightarrow> keydown (Digit P) s = s)
       \<and> (isActive s \<and> pendingYearKey s = Some k \<and> k \<noteq> 0 \<longrightarrow>
            keydown Space s
              = await (StopFlash k)
                  (perform [EffectsHalted, ArrivalSound, FlashStarted]
                     (s\<lparr>pendingYearKey := None\<rparr>))
            \<and> keydown Space s \<noteq> s)
       \<and> (\<not> isActive s \<or> pendingYearKey s = None \<or> pendingYearKey s = Some 0 \<longrightarrow>
            keydown Space s = s)"
proof -
  obtain cfg where cfg: "years P = Some cfg" using digit_valid [OF assms] by auto
  have a: "\<not> isActive s \<and> P \<noteq> currentYearKey s \<longrightarrow>
            (\<exists>cfg. years P = Some cfg
               \<and> keydown (Digit P) s
                   = (perform [SlideshowPause, WormholeShown (display cfg)] s)
                       \<lparr>pendingYearKey := Some P, isActive := True,
                        targetYear := Some (display cfg)\<rparr>)
            \<and> keydown (Digit P) s \<noteq> s"
  proof
    assume h: "\<not> isActive s \<and> P \<noteq> currentYearKey s"
    have eq: "keydown (Digit P) s
          = (perform [SlideshowPause, WormholeShown (display cfg)] s)
              \<lparr>pendingYearKey := Some P, isActive := True, targetYear := Some (display cfg)\<rparr>"
      using h cfg assms by (intro select_accepted) simp_all
    then have "isActive (keydown (Digit P) s)" by (simp del: keydown.simps)
    with h have "keydown (Digit P) s \<noteq> s" by metis
    with eq cfg show "(\<exists>cfg. years P = Some cfg
               \<and> keydown (Digit P) s
                   = (perform [SlideshowPause, WormholeShown (display cfg)] s)
                       \<lparr>pendingYearKey := Some P, isActive := True,
                        targetYear := Some (display cfg)\<rparr>)
            \<and> keydown (Digit P) s \<noteq> s" by blast
  qed
  have b: "isActive s \<or> P = currentYearKey s \<longrightarrow> keydown (Digit P) s = s"
    using select_ignored [of s P] by blast
  have c: "isActive s \<and> pendingYearKey s = Some k \<and> k \<noteq> 0 \<longrightarrow>
            keydown Space s
              = await (StopFlash k)
                  (perform [EffectsHalted, ArrivalSound, FlashStarted]
                     (s\<lparr>pendingYearKey := None\<rparr>))
            \<and> keydown Space s \<noteq> s"
  proof
    assume h: "isActive s \<and> pendingYearKey s = Some k \<and> k \<noteq> 0"
    then have eq: "keydown Space s
              = await (StopFlash k)
                  (perform [EffectsHalted, ArrivalSound, FlashStarted]
                     (s\<lparr>pendingYearKey := None\<rparr>))"
      by (intro complete_accepted) simp_all
    then have "pendingYearKey (keydown Space s) = None"
      by (simp add: await_def perform_def)
    with h have "keydown Space s \<noteq> s" by (metis option.distinct(1))
    with eq show "keydown Space s
              = await (StopFlash k)
                  (perform [EffectsHalted, ArrivalSound, FlashStarted]
                     (s\<lparr>pendingYearKey := None\<rparr>))
            \<and> keydown Space s \<noteq> s" by blast
  qed
  have d: "\<not> isActive s \<or> pendingYearKey s = None \<or> pendingYearKey s = Some 0 \<longrightarrow>
            keydown Space s = s"
    using complete_ignored [of s] by blast
  show ?thesis using a b c d by blast
qed

theorem manual_trigger_contract_witness:
  "(1::nat) \<le> 3 \<and> (3::nat) \<le> 5
   \<and> \<not> isActive loaded \<and> 3 \<noteq> currentYearKey loaded
   \<and> keydown (Digit 3) loaded \<noteq> loaded
   \<and> keydown (Digit 1) loaded = loaded
   \<and> isActive waiting_for_space
   \<and> keydown (Digit 4) waiting_for_space = waiting_for_space
   \<and> keydown Space waiting_for_space \<noteq> waiting_for_space
   \<and> keydown Space loaded = loaded"
proof -
  have i: "\<not> isActive loaded \<and> 3 \<noteq> currentYearKey loaded
           \<and> 1 = currentYearKey loaded"
    by code_simp
  have w: "isActive waiting_for_space \<and> pendingYearKey waiting_for_space = Some 3"
    by code_simp
  have l3: "(1::nat) \<le> 3" "(3::nat) \<le> 5" and l1: "(1::nat) \<le> 1" "(1::nat) \<le> 5"
    and l4: "(1::nat) \<le> 4" "(4::nat) \<le> 5"
    by simp_all
  note t3 = manual_trigger_contract [OF l3, of loaded 3]
  note t1 = manual_trigger_contract [OF l1, of loaded 3]
  note t4 = manual_trigger_contract [OF l4, of waiting_for_space 3]
  from t3 i have a: "keydown (Digit 3) loaded \<noteq> loaded" by blast
  from t1 i have b: "keydown (Digit 1) loaded = loaded"
    and c: "keydown Space loaded = loaded" by blast+
  have nz: "(3::nat) \<noteq> 0" by simp
  from t4 w nz have d: "keydown (Digit 4) waiting_for_space = waiting_for_space"
    and e: "keydown Space waiting_for_space \<noteq> waiting_for_space" by blast+
  show ?thesis using i w a b c d e l3 by blast
qed


lemma lastScheduledHour_keydown [simp]:
  "lastScheduledHour (keydown key s) = lastScheduledHour s"
  by (cases key)
    (simp_all add: settled_or_def initiateTimeTravel_def isRunning_def wormhole_start_def
      completeTimeTravel_def stop_then_goToYear_def wormhole_stop_def goToYear_def
      await_def perform_def split: option.splits)

lemma lastScheduledHour_resume [simp]:
  "lastScheduledHour (resume_travel j s) = lastScheduledHour s"
  by (simp add: resume_travel_def Let_def stop_then_goToYear_def wormhole_stop_def
      wormhole_stop_resumed_def goToYear_def goToYear_resumed_def await_def perform_def
      split: travel_task.splits option.splits)

lemma tick_while_active: "isActive s \<Longrightarrow> checkScheduledTravel h s = s"
  by (simp add: checkScheduledTravel_def isRunning_def)

lemma tick_unscheduled:
  "\<not> isActive s \<Longrightarrow> schedule h = None
   \<Longrightarrow> checkScheduledTravel h s = s\<lparr>lastScheduledHour := None\<rparr>"
  by (simp add: checkScheduledTravel_def isRunning_def)

lemma tick_already_triggered:
  "lastScheduledHour s = Some h \<Longrightarrow> schedule h \<noteq> None \<Longrightarrow> checkScheduledTravel h s = s"
  by (auto simp: checkScheduledTravel_def isRunning_def)

lemma tick_marks:
  "\<not> isActive s \<Longrightarrow> schedule h \<noteq> None
   \<Longrightarrow> lastScheduledHour (checkScheduledTravel h s) = Some h"
  by (auto simp: checkScheduledTravel_def isRunning_def Let_def settled_or_def
      initiateAutomaticTimeTravel_def wormhole_start_def await_def perform_def
      split: option.splits)

lemma tick_at_destination:
  "\<not> isActive s \<Longrightarrow> schedule h = Some k \<Longrightarrow> currentYearKey s = k
   \<Longrightarrow> checkScheduledTravel h s = s\<lparr>lastScheduledHour := Some h\<rparr>"
  by (simp add: checkScheduledTravel_def isRunning_def)

text \<open>
  C4 (as the code has it). A tick at hour \<open>h\<close> with \<open>lastScheduledHour = h\<close> starts no
  transition, and changes nothing when \<open>h\<close> is scheduled; a tick at a scheduled hour with
  the wormhole not active leaves \<open>lastScheduledHour = h\<close>, whether it started a transition
  or only marked the hour; key presses and resumptions never write \<open>lastScheduledHour\<close>;
  a second tick at the same hour right after the first changes nothing. The cursor is
  reset to empty by a tick at an hour with no schedule entry when the wormhole is not
  active; while the wormhole is active a tick changes nothing at all.
\<close>

theorem scheduled_travel_once_per_hour:
  "(lastScheduledHour s = Some h \<longrightarrow>
      isActive (checkScheduledTravel h s) = isActive s
      \<and> travelTasks (checkScheduledTravel h s) = travelTasks s
      \<and> effects (checkScheduledTravel h s) = effects s
      \<and> pendingYearKey (checkScheduledTravel h s) = pendingYearKey s
      \<and> currentYearKey (checkScheduledTravel h s) = currentYearKey s)
   \<and> (lastScheduledHour s = Some h \<and> schedule h \<noteq> None \<longrightarrow> checkScheduledTravel h s = s)
   \<and> (\<not> isActive s \<and> schedule h \<noteq> None \<longrightarrow>
        lastScheduledHour (checkScheduledTravel h s) = Some h)
   \<and> (\<not> isActive s \<and> schedule h = None \<longrightarrow>
        checkScheduledTravel h s = s\<lparr>lastScheduledHour := None\<rparr>)
   \<and> (isActive s \<longrightarrow> checkScheduledTravel h s = s)
   \<and> lastScheduledHour (keydown key s) = lastScheduledHour s
   \<and> lastScheduledHour (resume_travel j s) = lastScheduledHour s
   \<and> checkScheduledTravel h (checkScheduledTravel h s) = checkScheduledTravel h s"
proof -
  have a: "lastScheduledHour s = Some h \<longrightarrow>
      isActive (checkScheduledTravel h s) = isActive s
      \<and> travelTasks (checkScheduledTravel h s) = travelTasks s
      \<and> effects (checkScheduledTravel h s) = effects s
      \<and> pendingYearKey (checkScheduledTravel h s) = pendingYearKey s
      \<and> currentYearKey (checkScheduledTravel h s) = currentYearKey s"
    by (auto simp: checkScheduledTravel_def isRunning_def split: option.splits)
  have b: "lastScheduledHour s = Some h \<and> schedule h \<noteq> None \<longrightarrow> checkScheduledTravel h s = s"
    using tick_already_triggered by blast
  have c: "\<not> isActive s \<and> schedule h \<noteq> None \<longrightarrow>
        lastScheduledHour (checkScheduledTravel h s) = Some h"
    using tick_marks by blast
  have d: "\<not> isActive s \<and> schedule h = None \<longrightarrow>
        checkScheduledTravel h s = s\<lparr>lastScheduledHour := None\<rparr>"
    using tick_unscheduled by blast
  have e: "isActive s \<longrightarrow> checkScheduledTravel h s = s"
    using tick_while_active by blast
  have f: "checkScheduledTravel h (checkScheduledTravel h s) = checkScheduledTravel h s"
  proof (cases "isActive s")
    case True
    then show ?thesis by (simp add: tick_while_active)
  next
    case False
    show ?thesis
    proof (cases "schedule h")
      case None
      then show ?thesis using False by (simp add: tick_unscheduled)
    next
      case (Some k)
      then have "lastScheduledHour (checkScheduledTravel h s) = Some h"
        using False tick_marks by simp
      then show ?thesis using Some by (simp add: tick_already_triggered)
    qed
  qed
  show ?thesis using a b c d e f by simp
qed


theorem scheduled_travel_once_per_hour_witness:
  "lastScheduledHour overridden = Some 21 \<and> schedule 21 = Some 2
   \<and> currentYearKey overridden = 1 \<and> isActive overridden = False
   \<and> checkScheduledTravel 21 overridden = overridden
   \<and> schedule 1 = None
   \<and> checkScheduledTravel 1 overridden = overridden\<lparr>lastScheduledHour := None\<rparr>
   \<and> lastScheduledHour (checkScheduledTravel 21 loaded) = Some 21
   \<and> isActive (checkScheduledTravel 21 loaded)
   \<and> checkScheduledTravel 21 (checkScheduledTravel 21 loaded)
       = checkScheduledTravel 21 loaded"
proof -
  have o: "lastScheduledHour overridden = Some 21 \<and> currentYearKey overridden = 1
           \<and> isActive overridden = False"
    by code_simp
  have t: "schedule 21 = Some 2 \<and> schedule 1 = None \<and> isActive loaded = False"
    by code_simp
  have a: "isActive (checkScheduledTravel 21 loaded)" by code_simp
  note w = scheduled_travel_once_per_hour [of overridden 21 OtherKey 0]
  note u = scheduled_travel_once_per_hour [of overridden 1 OtherKey 0]
  note i = scheduled_travel_once_per_hour [of loaded 21 OtherKey 0]
  from w o t have w1: "checkScheduledTravel 21 overridden = overridden" by simp
  from u o t have u1: "checkScheduledTravel 1 overridden = overridden\<lparr>lastScheduledHour := None\<rparr>"
    by simp
  from i t have i1: "lastScheduledHour (checkScheduledTravel 21 loaded) = Some 21"
    and i2: "checkScheduledTravel 21 (checkScheduledTravel 21 loaded)
       = checkScheduledTravel 21 loaded" by simp_all
  show ?thesis using o t a w1 u1 i1 i2 by simp
qed

text \<open>
  C4 as stated fails on the reset: the travel scheduled for 23 h is made, then the key 2
  opens a manual transition that is left open over midnight. Hour 1 has no schedule
  entry, but the tick at 1 h finds the wormhole active and leaves the cursor at 23.
\<close>

theorem tick_during_wormhole_keeps_cursor:
  "schedule 1 = None
   \<and> isActive (travel_run [ClockTick 23, ResumeTravel 0, ResumeTravel 0, ResumeTravel 0,
                            KeyDown (Digit 2), ClockTick 23, ClockTick 0] (init 19))
   \<and> lastScheduledHour
        (travel_run [ClockTick 23, ResumeTravel 0, ResumeTravel 0, ResumeTravel 0,
                     KeyDown (Digit 2), ClockTick 23, ClockTick 0, ClockTick 1] (init 19))
       = Some 23"
  by code_simp

text \<open>
  C5 (as the code has it). At a tick whose hour is scheduled for the current year: when
  the wormhole is not active, the only change is \<open>lastScheduledHour\<close> set to that hour
  (no wormhole started, no slideshow pause, same current year); when the wormhole is
  active, nothing changes, so the hour is not marked either.
\<close>

theorem scheduled_target_is_current:
  assumes "schedule h = Some k" and "currentYearKey s = k"
  shows "(\<not> isActive s \<longrightarrow> checkScheduledTravel h s = s\<lparr>lastScheduledHour := Some h\<rparr>)
       \<and> (isActive s \<longrightarrow> checkScheduledTravel h s = s)"
  using assms tick_at_destination [of s h k] tick_while_active [of s h] by blast

theorem scheduled_target_is_current_witness:
  "schedule 20 = Some 1 \<and> currentYearKey loaded = 1 \<and> isActive loaded = False
   \<and> checkScheduledTravel 20 loaded = loaded\<lparr>lastScheduledHour := Some 20\<rparr>
   \<and> isActive waiting_for_space
   \<and> checkScheduledTravel 20 waiting_for_space = waiting_for_space"
proof -
  have a: "schedule 20 = Some 1" and b: "currentYearKey loaded = 1"
    and c: "isActive loaded = False" and d: "isActive waiting_for_space"
    and e: "currentYearKey waiting_for_space = 1"
    by code_simp+
  note i = scheduled_target_is_current [OF a b]
  note w = scheduled_target_is_current [OF a e]
  show ?thesis using a b c d i w by simp
qed

text \<open>
  C5 as stated fails while a transition is open: the key 2 opened the wormhole, the
  current year is still 1, hour 20 is scheduled for 1, and the tick does not mark it.
\<close>

theorem tick_during_wormhole_does_not_mark:
  "schedule 20 = Some 1
   \<and> currentYearKey (travel_run [KeyDown (Digit 2)] (init 19)) = 1
   \<and> lastScheduledHour (travel_run [KeyDown (Digit 2), ClockTick 20] (init 19)) = None"
  by code_simp

section \<open>Properties of the facts loader\<close>

lemma foldl_update_at:
  "foldl (\<lambda>fs f. fs(f \<mapsto> g f)) m xs k = (if k \<in> set xs then Some (g k) else m k)"
  by (induction xs arbitrary: m) auto

lemma loadAllFacts_at:
  "loadAllFacts fetch facts f
   = (if f \<in> set folders then Some (load_facts (fetch f)) else facts f)"
  unfolding loadAllFacts_def by (rule foldl_update_at)

text \<open>
  After \<^verbatim>\<open>loadAllFacts\<close> each of the five folders has a facts entry, so the default of
  \<^verbatim>\<open>startFactsRotation\<close> is never used for a missing entry. When the fetch fails, the
  facts are the single line "Temporal data unavailable for this era." and the ticker
  uses that line; when the fetch succeeds, the ticker uses the trimmed non-blank lines of
  the body, whatever their number.
\<close>

lemma loaded_folder_has_facts:
  assumes "f \<in> set folders"
  shows "loadAllFacts fetch facts f \<noteq> None"
    and "fetch f = Rejected \<Longrightarrow> ticker_facts (loadAllFacts fetch facts) f = [unavailable]"
    and "fetch f = Body text \<Longrightarrow>
          ticker_facts (loadAllFacts fetch facts) f
            = filter (\<lambda>line. length line > 0) (map trim (split_lines text))"
  using assms by (simp_all add: loadAllFacts_at load_facts_def ticker_facts_def)

text \<open>
  C8 fails on empty content. A facts file that is empty, or has blank lines only, gives
  an empty facts list: \<^verbatim>\<open>loadAllFacts\<close> substitutes its default line only when the fetch
  fails, and the default of \<^verbatim>\<open>startFactsRotation\<close> does not apply to an empty array. The
  ticker is rendered from the empty list; its text is one separator.
\<close>

theorem empty_facts_file_gives_no_line:
  "ticker_facts (loadAllFacts (\<lambda>f. Body []) Map.empty) ''2025'' = []
   \<and> ticker_facts (loadAllFacts (\<lambda>f. Body [0x20, 0xA, 0x9, 0xA]) Map.empty) ''2025'' = []
   \<and> startFactsRotation (\<lambda>i. 0) (loadAllFacts (\<lambda>f. Body []) Map.empty) ''2025'' = separator
   \<and> ticker_facts (loadAllFacts (\<lambda>f. Rejected) Map.empty) ''2025'' = [unavailable]"
  by (simp add: loadAllFacts_at folders_def load_facts_def ticker_facts_def trim_def
      is_space_def startFactsRotation_def shuffleArray_def)

end
